theory Spec2Isabelle
  imports Complex_Main "HOL-Library.Sublist" "HOL-Library.AList"
begin

section \<open>Strings of the source language\<close>

text \<open>
  The program is TypeScript. Its strings are sequences of code units; the model uses
  \<^typ>\<open>string\<close>, one \<^typ>\<open>char\<close> per code unit, which covers the code units
  0 to 255. Of the line terminators that the regular-expression atom \<^verbatim>\<open>.\<close> refuses,
  line feed and carriage return are in that range.
\<close>

definition isLineTerminator :: "char \<Rightarrow> bool" where
  "isLineTerminator c \<longleftrightarrow> c = CHR 0x0A \<or> c = CHR 0x0D"

text \<open>The classes \<^verbatim>\<open>\d\<close> and \<^verbatim>\<open>\w\<close>.\<close>

definition isDigit :: "char \<Rightarrow> bool" where
  "isDigit c \<longleftrightarrow> c \<in> set ''0123456789''"

definition isWordChar :: "char \<Rightarrow> bool" where
  "isWordChar c \<longleftrightarrow>
     c \<in> set ''abcdefghijklmnopqrstuvwxyz'' \<or> c \<in> set ''ABCDEFGHIJKLMNOPQRSTUVWXYZ'' \<or>
     isDigit c \<or> c = CHR ''_''"

text \<open>
  Case folding under the flag \<^verbatim>\<open>i\<close> compares upper-cased code units, and a code
  unit above 127 is never folded to an ASCII one. The keywords are made of ASCII letters,
  so a comparison can only succeed on an ASCII letter, and folding those is all that is
  needed.
\<close>

definition canonicalize :: "char \<Rightarrow> char" where
  "canonicalize c =
     (case map_of (zip ''abcdefghijklmnopqrstuvwxyz'' ''ABCDEFGHIJKLMNOPQRSTUVWXYZ'') c of
        Some u \<Rightarrow> u
      | None \<Rightarrow> c)"

text \<open>
  \<^verbatim>\<open>code.split('\n')\<close> (never empty: one more piece than there are line feeds),
  \<^verbatim>\<open>lines.join('\n')\<close>, and \<^verbatim>\<open>s.substring(a, b)\<close>, which clamps both indices to
  the length and then orders them.
\<close>

fun split_newline :: "string \<Rightarrow> string list" where
  "split_newline [] = [[]]"
| "split_newline (c # cs) =
     (if c = CHR 0x0A then [] # split_newline cs
      else (case split_newline cs of
              [] \<Rightarrow> [[c]]
            | l # ls \<Rightarrow> (c # l) # ls))"

fun join_newline :: "string list \<Rightarrow> string" where
  "join_newline [] = []"
| "join_newline [l] = l"
| "join_newline (l # ls) = l @ CHR 0x0A # join_newline ls"

definition substring :: "string \<Rightarrow> nat \<Rightarrow> nat \<Rightarrow> string" where
  "substring s a b =
     (let a' = min a (length s); b' = min b (length s)
      in take (max a' b' - min a' b') (drop (min a' b') s))"

definition substringFrom :: "string \<Rightarrow> nat \<Rightarrow> string" where
  "substringFrom s a = drop (min a (length s)) s"

section \<open>The four patterns of the tokenizers\<close>

text \<open>
  Each \<open>...At s i\<close> is one attempt of the regular expression anchored at index \<open>i\<close>
  of the line \<open>s\<close>: it returns the end index of the match the backtracking matcher
  finds first, or \<open>None\<close>. Each \<open>...Exec s i\<close> is the loop
  \<^verbatim>\<open>while ((match = pattern.exec(line)) !== null)\<close> of a pattern with the flag
  \<^verbatim>\<open>g\<close>, started with \<^verbatim>\<open>lastIndex = i\<close>: the attempt is made at \<open>i\<close>, \<open>i + 1\<close>, ...
  up to the length of the line, and after a match the search goes on from its end.
\<close>

record Match =
  m_start :: nat
  m_end :: nat
  m_type :: string

text \<open>The assertion \<^verbatim>\<open>\b\<close> at index \<open>i\<close>: exactly one neighbour is a word character.\<close>

definition wordBoundary :: "string \<Rightarrow> nat \<Rightarrow> bool" where
  "wordBoundary s i \<longleftrightarrow>
     (0 < i \<and> i \<le> length s \<and> isWordChar (s ! (i - 1))) \<noteq> (i < length s \<and> isWordChar (s ! i))"

subsection \<open>Comments\<close>

text \<open>
  The pattern is \<^verbatim>\<open>/(\/\/.*$|\/\*[\s\S]*?\*\/|#.*$)/gm\<close>. In the second alternative the lazy
  \<^verbatim>\<open>[\s\S]*?\<close> stops at the first \<^verbatim>\<open>*/\<close> after the opening: \<open>findClose\<close>
  counts the characters before it. In the other two, \<^verbatim>\<open>.*$\<close> under the flag
  \<^verbatim>\<open>m\<close> runs greedily to the next line terminator or to the end of the line.
\<close>

fun findClose :: "string \<Rightarrow> nat option" where
  "findClose (a # b # cs) =
     (if a = CHR ''*'' \<and> b = CHR ''/'' then Some 0 else map_option Suc (findClose (b # cs)))"
| "findClose _ = None"

definition restOfLine :: "string \<Rightarrow> nat" where
  "restOfLine r = length (takeWhile (\<lambda>c. \<not> isLineTerminator c) r)"

definition commentAt :: "string \<Rightarrow> nat \<Rightarrow> nat option" where
  "commentAt s i =
     (let r = drop i s in
      if prefix ''//'' r then Some (i + 2 + restOfLine (drop 2 r))
      else if prefix ''/*'' r then map_option (\<lambda>k. i + 2 + k + 2) (findClose (drop 2 r))
      else if prefix ''#'' r then Some (i + 1 + restOfLine (drop 1 r))
      else None)"

subsection \<open>Strings\<close>

text \<open>
  The pattern is \<^verbatim>\<open>/(["'`])(?:(?=(\\?))\2.)*?\1/g\<close>. After the opening quote \<open>q\<close>
  the star is lazy, so the closing quote \<^verbatim>\<open>\1\<close> is tried first at every position.
  Otherwise one iteration runs: the lookahead captures a backslash if one is next, the
  backreference \<^verbatim>\<open>\2\<close> consumes it, and \<^verbatim>\<open>.\<close> consumes the character after it; with
  no backslash next, \<^verbatim>\<open>.\<close> consumes one character. \<^verbatim>\<open>.\<close> refuses a line terminator,
  and a lookahead is not re-entered on failure, so an iteration that fails ends the
  attempt. \<open>stringBody\<close> counts the characters consumed after the opening quote, the
  closing quote included.
\<close>

fun stringBody :: "char \<Rightarrow> string \<Rightarrow> nat option" where
  "stringBody q [] = None"
| "stringBody q (c # cs) =
     (if c = q then Some 1
      else if c = CHR 0x5C then
        (case cs of
           [] \<Rightarrow> None
         | d # ds \<Rightarrow> if isLineTerminator d then None else map_option (\<lambda>n. n + 2) (stringBody q ds))
      else if isLineTerminator c then None
      else map_option Suc (stringBody q cs))"

definition stringAt :: "string \<Rightarrow> nat \<Rightarrow> nat option" where
  "stringAt s i =
     (case drop i s of
        [] \<Rightarrow> None
      | q # r \<Rightarrow>
          if q = CHR 0x22 \<or> q = CHR 0x27 \<or> q = CHR 0x60
          then map_option (\<lambda>n. i + 1 + n) (stringBody q r)
          else None)"

subsection \<open>Numbers\<close>

text \<open>
  The pattern is \<^verbatim>\<open>/\b\d+\.?\d*\b/g\<close>. \<open>numberEnds s i n\<close> lists the end indices
  that \<^verbatim>\<open>\d+\.?\d*\<close> can reach from \<open>i\<close>, where a run of \<open>n > 0\<close> digits starts, in
  the order in which the greedy quantifiers give them up: all \<open>n\<close> digits with the dot
  and the digits after it (longest first), all \<open>n\<close> digits without the dot, then
  \<open>n - 1\<close>, ..., 1 digits for \<^verbatim>\<open>\d+\<close> with the rest left to \<^verbatim>\<open>\d*\<close>. The match
  ends at the first of them where the closing \<^verbatim>\<open>\b\<close> holds.
\<close>

definition numberEnds :: "string \<Rightarrow> nat \<Rightarrow> nat \<Rightarrow> nat list" where
  "numberEnds s i n =
     (let j = i + n;
          withDot =
            (if j < length s \<and> s ! j = CHR ''.''
             then map (\<lambda>k. j + 1 + k) (rev [0 ..< Suc (length (takeWhile isDigit (drop (j + 1) s)))])
             else []);
          shorter = concat (map (\<lambda>k. rev [i + k ..< Suc j]) (rev [1 ..< n]))
      in withDot @ [j] @ shorter)"

definition numberAt :: "string \<Rightarrow> nat \<Rightarrow> nat option" where
  "numberAt s i =
     (let n = length (takeWhile isDigit (drop i s)) in
      if wordBoundary s i \<and> 0 < n then find (wordBoundary s) (numberEnds s i n) else None)"

subsection \<open>Keywords\<close>

text \<open>
  The pattern is \<^verbatim>\<open>new RegExp(`\\b(${keywords.join('|')})\\b`, 'gi')\<close>. The alternatives
  are tried in the order of the list, each compared under case folding; one whose closing
  \<^verbatim>\<open>\b\<close> fails gives way to the next.
\<close>

fun matchesIgnoreCase :: "string \<Rightarrow> string \<Rightarrow> bool" where
  "matchesIgnoreCase [] rest = True"
| "matchesIgnoreCase (k # ks) [] = False"
| "matchesIgnoreCase (k # ks) (c # cs) =
     (if canonicalize c = canonicalize k then matchesIgnoreCase ks cs else False)"

definition keywordAt :: "string list \<Rightarrow> string \<Rightarrow> nat \<Rightarrow> nat option" where
  "keywordAt keywords s i =
     (if wordBoundary s i
      then map_option (\<lambda>kw. i + length kw)
             (find (\<lambda>kw. if matchesIgnoreCase kw (drop i s)
                         then wordBoundary s (i + length kw) else False) keywords)
      else None)"

text \<open>The keyword list of \<^verbatim>\<open>tokenizeCode\<close> in the preview script.\<close>

definition keywords_preview :: "string list" where
  "keywords_preview =
     [''function'', ''return'', ''if'', ''else'', ''for'', ''while'', ''do'', ''switch'', ''case'',
      ''break'', ''continue'', ''const'', ''let'', ''var'', ''class'', ''interface'', ''enum'',
      ''type'', ''import'', ''export'', ''from'', ''as'', ''default'', ''async'', ''await'',
      ''try'', ''catch'', ''finally'', ''throw'', ''new'', ''this'', ''super'', ''extends'',
      ''implements'', ''public'', ''private'', ''protected'', ''static'', ''readonly'',
      ''def'', ''lambda'', ''yield'', ''raise'', ''with'', ''pass'', ''assert'', ''global'',
      ''in'', ''is'', ''not'', ''and'', ''or'', ''true'', ''false'', ''null'', ''undefined'']"

text \<open>The keyword list of \<^verbatim>\<open>createMinimalHighlighting\<close> in the tokenization service.\<close>

definition keywords_minimal :: "string list" where
  "keywords_minimal =
     [''function'', ''return'', ''if'', ''else'', ''for'', ''while'', ''do'', ''switch'', ''case'',
      ''break'', ''continue'', ''const'', ''let'', ''var'', ''class'', ''interface'', ''enum'',
      ''type'', ''import'', ''export'', ''from'', ''as'', ''default'', ''async'', ''await'',
      ''try'', ''catch'', ''finally'', ''throw'', ''new'', ''this'', ''super'', ''extends'',
      ''implements'', ''public'', ''private'', ''protected'', ''static'', ''readonly'',
      ''def'', ''lambda'', ''yield'', ''raise'', ''with'', ''pass'', ''assert'', ''global'',
      ''nonlocal'', ''in'', ''is'', ''not'', ''and'', ''or'', ''true'', ''false'', ''null'',
      ''undefined'', ''void'', ''any'', ''boolean'', ''number'', ''string'', ''object'']"

subsection \<open>The search loops\<close>

text \<open>
  An attempt that succeeds consumes at least one character, so every loop advances and
  ends; the termination proofs below rest on these facts.
\<close>

lemma commentAt_advances: "commentAt s i = Some e \<Longrightarrow> i < e"
  by (auto simp: commentAt_def Let_def split: if_splits)

lemma stringAt_advances: "stringAt s i = Some e \<Longrightarrow> i < e"
  by (auto simp: stringAt_def split: list.splits if_splits)

lemma numberEnds_advance: "0 < n \<Longrightarrow> e \<in> set (numberEnds s i n) \<Longrightarrow> i < e"
  by (auto simp: numberEnds_def Let_def split: if_splits)

lemma find_Some_mem: "find P xs = Some x \<Longrightarrow> x \<in> set xs \<and> P x"
  by (induction xs) (auto split: if_splits)

lemma numberAt_advances: "numberAt s i = Some e \<Longrightarrow> i < e"
proof -
  assume a: "numberAt s i = Some e"
  define n where "n = length (takeWhile isDigit (drop i s))"
  from a have "0 < n" and "find (wordBoundary s) (numberEnds s i n) = Some e"
    by (auto simp: numberAt_def Let_def n_def split: if_splits)
  then show "i < e"
    using find_Some_mem [of "wordBoundary s" "numberEnds s i n" e]
      numberEnds_advance [of n e s i] by blast
qed

lemma keywordAt_advances:
  "[] \<notin> set keywords \<Longrightarrow> keywordAt keywords s i = Some e \<Longrightarrow> i < e"
  by (auto simp: keywordAt_def split: if_splits dest!: find_Some_mem)

function commentExec :: "string \<Rightarrow> nat \<Rightarrow> Match list" where
  "commentExec line i =
     (if length line < i then []
      else (case commentAt line i of
              None \<Rightarrow> commentExec line (i + 1)
            | Some e \<Rightarrow> \<lparr>m_start = i, m_end = e, m_type = ''comment''\<rparr> # commentExec line e))"
  by pat_completeness auto
termination
  by (relation "measure (\<lambda>(line, i). Suc (length line) - i)")
     (auto dest: commentAt_advances)

function stringExec :: "string \<Rightarrow> nat \<Rightarrow> Match list" where
  "stringExec line i =
     (if length line < i then []
      else (case stringAt line i of
              None \<Rightarrow> stringExec line (i + 1)
            | Some e \<Rightarrow> \<lparr>m_start = i, m_end = e, m_type = ''string''\<rparr> # stringExec line e))"
  by pat_completeness auto
termination
  by (relation "measure (\<lambda>(line, i). Suc (length line) - i)")
     (auto dest: stringAt_advances)

function numberExec :: "string \<Rightarrow> nat \<Rightarrow> Match list" where
  "numberExec line i =
     (if length line < i then []
      else (case numberAt line i of
              None \<Rightarrow> numberExec line (i + 1)
            | Some e \<Rightarrow> \<lparr>m_start = i, m_end = e, m_type = ''number''\<rparr> # numberExec line e))"
  by pat_completeness auto
termination
  by (relation "measure (\<lambda>(line, i). Suc (length line) - i)")
     (auto dest: numberAt_advances)

lemma keywords_preview_nonempty: "[] \<notin> set keywords_preview"
  by (simp add: keywords_preview_def)

lemma keywords_minimal_nonempty: "[] \<notin> set keywords_minimal"
  by (simp add: keywords_minimal_def)

function keywordExec :: "string \<Rightarrow> nat \<Rightarrow> Match list" where
  "keywordExec line i =
     (if length line < i then []
      else (case keywordAt keywords_preview line i of
              None \<Rightarrow> keywordExec line (i + 1)
            | Some e \<Rightarrow> \<lparr>m_start = i, m_end = e, m_type = ''keyword''\<rparr> # keywordExec line e))"
  by pat_completeness auto
termination
  by (relation "measure (\<lambda>(line, i). Suc (length line) - i)")
     (auto dest: keywordAt_advances [OF keywords_preview_nonempty])

function keywordExecMinimal :: "string \<Rightarrow> nat \<Rightarrow> Match list" where
  "keywordExecMinimal line i =
     (if length line < i then []
      else (case keywordAt keywords_minimal line i of
              None \<Rightarrow> keywordExecMinimal line (i + 1)
            | Some e \<Rightarrow>
                \<lparr>m_start = i, m_end = e, m_type = ''keyword''\<rparr> # keywordExecMinimal line e))"
  by pat_completeness auto
termination
  by (relation "measure (\<lambda>(line, i). Suc (length line) - i)")
     (auto dest: keywordAt_advances [OF keywords_minimal_nonempty])

declare commentExec.simps [simp del] stringExec.simps [simp del] numberExec.simps [simp del]
  keywordExec.simps [simp del] keywordExecMinimal.simps [simp del]

section \<open>The pattern tokenizer of the preview script\<close>

text \<open>
  \<^verbatim>\<open>matches.sort((a, b) => a.start - b.start)\<close> is a stable sort on the start offset.
  The overlap filter keeps a match only if it starts at or after \<^verbatim>\<open>lastEnd\<close>, which
  begins at \<open>-1\<close>.
\<close>

definition sortByStart :: "Match list \<Rightarrow> Match list" where
  "sortByStart matches = sort_key m_start matches"

fun removeOverlaps :: "int \<Rightarrow> Match list \<Rightarrow> Match list" where
  "removeOverlaps lastEnd [] = []"
| "removeOverlaps lastEnd (m # ms) =
     (if lastEnd \<le> int (m_start m) then m # removeOverlaps (int (m_end m)) ms
      else removeOverlaps lastEnd ms)"

record SpanToken =
  s_text :: string
  s_type :: string

text \<open>
  The token loop over the filtered matches of one line, from \<^verbatim>\<open>position\<close> on; the
  text after the last match is its final step.
\<close>

fun createTokens :: "string \<Rightarrow> nat \<Rightarrow> Match list \<Rightarrow> SpanToken list" where
  "createTokens line position [] =
     (if position < length line
      then [\<lparr>s_text = substringFrom line position, s_type = ''text''\<rparr>] else [])"
| "createTokens line position (m # ms) =
     (if position < m_start m
      then [\<lparr>s_text = substring line position (m_start m), s_type = ''text''\<rparr>] else [])
     @ \<lparr>s_text = substring line (m_start m) (m_end m), s_type = m_type m\<rparr>
     # createTokens line (m_end m) ms"

definition findMatches :: "string \<Rightarrow> Match list" where
  \<comment> \<open>comments, strings, numbers, keywords, in the order the source pushes them\<close>
  "findMatches line =
     commentExec line 0 @ stringExec line 0 @ numberExec line 0 @ keywordExec line 0"

definition filteredMatches :: "string \<Rightarrow> Match list" where
  "filteredMatches line = removeOverlaps (-1) (sortByStart (findMatches line))"

definition tokenizeLine :: "string \<Rightarrow> SpanToken list" where
  "tokenizeLine line = createTokens line 0 (filteredMatches line)"

fun tokenizeLines :: "string list \<Rightarrow> SpanToken list" where
  "tokenizeLines [] = []"
| "tokenizeLines [line] = tokenizeLine line"
| "tokenizeLines (line # rest) =
     tokenizeLine line @ \<lparr>s_text = [CHR 0x0A], s_type = ''text''\<rparr> # tokenizeLines rest"

definition tokenizeCode :: "string \<Rightarrow> string \<Rightarrow> SpanToken list" where
  "tokenizeCode code language = tokenizeLines (split_newline code)"

section \<open>The tokenization service\<close>

datatype ThemeKind = light | dark | highContrast

record ThemeData =
  kind :: ThemeKind
  colors :: "string \<rightharpoonup> string"
  background :: string
  foreground :: string
  borderColor :: string
  borderColorSubtle :: string
  buttonBackground :: string
  buttonForeground :: string
  buttonHoverBackground :: string
  accentColor :: string

record Token =
  t_text :: string
  t_scopes :: "string list"
  t_startIndex :: nat
  t_endIndex :: nat
  t_color :: string

subsection \<open>Object literals\<close>

text \<open>
  The tables of the source are object literals read with \<^verbatim>\<open>table[key]\<close>. Such a read
  finds the own properties of the literal and, for a key that is none of them, the
  members that every object inherits from \<^verbatim>\<open>Object.prototype\<close>. An inherited member is
  a function, or for \<^verbatim>\<open>__proto__\<close> the prototype object itself: a value that is not a
  string and that is truthy. Every other key reads \<^verbatim>\<open>undefined\<close>, which is \<open>None\<close>.
\<close>

definition objectPrototype :: "string list" where
  "objectPrototype =
     [''constructor'', ''__defineGetter__'', ''__defineSetter__'', ''hasOwnProperty'',
      ''__lookupGetter__'', ''__lookupSetter__'', ''isPrototypeOf'', ''propertyIsEnumerable'',
      ''toString'', ''valueOf'', ''__proto__'', ''toLocaleString'']"

datatype jsval = JString string | JInherited string

definition getProperty :: "(string \<rightharpoonup> string) \<Rightarrow> string \<Rightarrow> jsval option" where
  "getProperty obj key =
     (case obj key of
        Some v \<Rightarrow> Some (JString v)
      | None \<Rightarrow> if key \<in> set objectPrototype then Some (JInherited key) else None)"

definition truthy :: "jsval \<Rightarrow> bool" where
  "truthy v = (case v of JString str \<Rightarrow> str \<noteq> [] | JInherited key \<Rightarrow> True)"

text \<open>
  \<^verbatim>\<open>a || b\<close>: \<open>b\<close> replaces a missing and a falsy \<open>a\<close>; on strings that may be missing,
  \<open>b\<close> replaces a missing and an empty \<open>a\<close>.
\<close>

definition orValue :: "jsval option \<Rightarrow> jsval \<Rightarrow> jsval" where
  "orValue a b = (case a of None \<Rightarrow> b | Some v \<Rightarrow> if truthy v then v else b)"

definition orElse :: "string option \<Rightarrow> string \<Rightarrow> string" where
  "orElse a b = (case a of None \<Rightarrow> b | Some v \<Rightarrow> if v = [] then b else v)"

text \<open>
  A value used as a property key is converted to a string: a string is its own key, an
  inherited function is rendered by the host as its source text (\<^verbatim>\<open>constructor\<close> is the
  function \<^verbatim>\<open>Object\<close>), and the prototype object as \<^verbatim>\<open>[object Object]\<close>.
\<close>

definition toPropertyKey :: "jsval \<Rightarrow> string" where
  "toPropertyKey v =
     (case v of
        JString str \<Rightarrow> str
      | JInherited key \<Rightarrow>
          if key = ''__proto__'' then ''[object Object]''
          else ''function '' @ (if key = ''constructor'' then ''Object'' else key)
               @ ''() { [native code] }'')"

record TokenizedCode =
  tc_language :: jsval
  tc_tokens :: "Token list"

subsection \<open>Colors\<close>

text \<open>
  The palette \<^verbatim>\<open>themeData.colors\<close> is read with keys that are never names of
  \<^verbatim>\<open>Object.prototype\<close> (the values of the tables and the renderings above), so its own
  properties decide every read of it.
\<close>

definition typeMapping :: "string \<rightharpoonup> string" where
  "typeMapping = map_of
     [(''comment'', ''comment''), (''string'', ''string''), (''keyword'', ''keyword''),
      (''number'', ''number''), (''function'', ''function''), (''method'', ''function''),
      (''class'', ''class''), (''type'', ''type''), (''interface'', ''type''),
      (''variable'', ''variable''), (''parameter'', ''parameter''),
      (''property'', ''property''), (''constant'', ''constant''),
      (''operator'', ''operator''), (''punctuation'', ''punctuation''),
      (''regexp'', ''regexp''), (''namespace'', ''type''), (''enum'', ''type''),
      (''struct'', ''type''), (''typeParameter'', ''type''), (''enumMember'', ''constant''),
      (''event'', ''function''), (''macro'', ''function''), (''modifier'', ''keyword'')]"

definition getColorForTokenType :: "string \<Rightarrow> ThemeData \<Rightarrow> string" where
  "getColorForTokenType tokenType themeData =
     (let mappedType = orValue (getProperty typeMapping tokenType) (JString ''variable'')
      in orElse (colors themeData (toPropertyKey mappedType)) (foreground themeData))"

text \<open>
  The colorizer of the preview script has its own table and no default: a type that the
  table does not hold, or a missing theme, gives \<^verbatim>\<open>null\<close>. A color that the palette
  does not hold is \<^verbatim>\<open>undefined\<close>; both are \<open>None\<close>.
\<close>

definition typeMap :: "string \<rightharpoonup> string" where
  "typeMap = map_of
     [(''comment'', ''comment''), (''string'', ''string''), (''keyword'', ''keyword''),
      (''number'', ''number''), (''function'', ''function''), (''class'', ''class''),
      (''variable'', ''variable''), (''constant'', ''constant''),
      (''operator'', ''operator''), (''type'', ''type''),
      (''punctuation'', ''punctuation''), (''regexp'', ''regexp'')]"

definition previewColorForTokenType :: "ThemeData option \<Rightarrow> string \<Rightarrow> string option" where
  "previewColorForTokenType currentTheme tokenType =
     (case currentTheme of
        None \<Rightarrow> None
      | Some theme \<Rightarrow>
          (case getProperty typeMap tokenType of
             None \<Rightarrow> None
           | Some mappedType \<Rightarrow>
               if truthy mappedType then colors theme (toPropertyKey mappedType) else None))"

subsection \<open>Minimal highlighting\<close>

definition textToken :: "ThemeData \<Rightarrow> string \<Rightarrow> nat \<Rightarrow> nat \<Rightarrow> Token" where
  "textToken themeData txt from to =
     \<lparr>t_text = txt, t_scopes = [''text''], t_startIndex = from, t_endIndex = to,
      t_color = foreground themeData\<rparr>"

fun createTokensMinimal :: "ThemeData \<Rightarrow> string \<Rightarrow> nat \<Rightarrow> nat \<Rightarrow> Match list \<Rightarrow> Token list" where
  "createTokensMinimal themeData line position linePosition [] =
     (if linePosition < length line
      then [textToken themeData (substringFrom line linePosition)
              (position + linePosition) (position + length line)]
      else [])"
| "createTokensMinimal themeData line position linePosition (m # ms) =
     (if linePosition < m_start m
      then [textToken themeData (substring line linePosition (m_start m))
              (position + linePosition) (position + m_start m)]
      else [])
     @ \<lparr>t_text = substring line (m_start m) (m_end m), t_scopes = [m_type m],
        t_startIndex = position + m_start m, t_endIndex = position + m_end m,
        t_color = getColorForTokenType (m_type m) themeData\<rparr>
     # createTokensMinimal themeData line position (m_end m) ms"

definition findMatchesMinimal :: "string \<Rightarrow> Match list" where
  \<comment> \<open>comments, strings, keywords, numbers, in the order the source pushes them\<close>
  "findMatchesMinimal line =
     commentExec line 0 @ stringExec line 0 @ keywordExecMinimal line 0 @ numberExec line 0"

definition filteredMatchesMinimal :: "string \<Rightarrow> Match list" where
  "filteredMatchesMinimal line = removeOverlaps (-1) (sortByStart (findMatchesMinimal line))"

definition minimalLine :: "ThemeData \<Rightarrow> nat \<Rightarrow> string \<Rightarrow> Token list" where
  "minimalLine themeData position line =
     createTokensMinimal themeData line position 0 (filteredMatchesMinimal line)"

fun minimalLines :: "ThemeData \<Rightarrow> nat \<Rightarrow> string list \<Rightarrow> Token list" where
  "minimalLines themeData position [] = []"
| "minimalLines themeData position [line] = minimalLine themeData position line"
| "minimalLines themeData position (line # rest) =
     minimalLine themeData position line
     @ textToken themeData [CHR 0x0A] (position + length line) (position + length line + 1)
     # minimalLines themeData (position + length line + 1) rest"

definition createMinimalHighlighting :: "string \<Rightarrow> string \<Rightarrow> ThemeData \<Rightarrow> TokenizedCode" where
  "createMinimalHighlighting code language themeData =
     (let tokens = minimalLines themeData 0 (split_newline code)
      in \<lparr>tc_language = JString language,
          tc_tokens = (if 0 < length tokens then tokens
                       else [textToken themeData code 0 (length code)])\<rparr>)"

subsection \<open>The public operation\<close>

text \<open>
  \<^verbatim>\<open>tokenizeInternal\<close> opens a document in the host editor and asks its language services
  for tokens; \<^verbatim>\<open>tokenizeWithTimeout\<close> races it against a timer. What the race yields
  is decided by the host and the clock, so it is a parameter here: the result of
  \<^verbatim>\<open>tokenizeInternal\<close> when it settles first and resolves, a failure when it throws or
  when the timer fires first.
\<close>

datatype failure = Thrown | TimedOut

type_synonym race = "string \<Rightarrow> string \<Rightarrow> ThemeData \<Rightarrow> rat \<Rightarrow> failure + TokenizedCode"

definition STREAMING_CHUNK_SIZE :: nat where
  "STREAMING_CHUNK_SIZE = 500"

definition isLargeBlock :: "string \<Rightarrow> int \<Rightarrow> bool" where
  "isLargeBlock code maxBlockSize \<longleftrightarrow> maxBlockSize < int (length code)"

definition toLowerCase :: "string \<Rightarrow> string" where
  \<comment> \<open>on the code units 0 to 255: A to Z, and the accented capitals 192 to 222 but 215\<close>
  "toLowerCase s =
     map (\<lambda>c. let n = (of_char c :: nat)
              in if (65 \<le> n \<and> n \<le> 90) \<or> (192 \<le> n \<and> n \<le> 222 \<and> n \<noteq> 215)
                 then char_of (n + 32) else c) s"

definition aliases :: "string \<rightharpoonup> string" where
  "aliases = map_of
     [(''js'', ''javascript''), (''ts'', ''typescript''), (''py'', ''python''),
      (''rb'', ''ruby''), (''sh'', ''shellscript''), (''bash'', ''shellscript''),
      (''zsh'', ''shellscript''), (''yml'', ''yaml''), (''dockerfile'', ''docker''),
      (''md'', ''markdown''), (''cs'', ''csharp''), (''cpp'', ''cpp''), (''c++'', ''cpp''),
      (''kt'', ''kotlin''), (''rs'', ''rust''), (''go'', ''go''), (''java'', ''java''),
      (''php'', ''php''), (''swift'', ''swift''), (''html'', ''html''), (''css'', ''css''),
      (''scss'', ''scss''), (''less'', ''less''), (''json'', ''json''), (''xml'', ''xml''),
      (''sql'', ''sql'')]"

text \<open>
  \<^verbatim>\<open>aliases[language.toLowerCase()] || language.toLowerCase()\<close>: the result is a string,
  or the inherited member when the lower-cased name is a name of \<^verbatim>\<open>Object.prototype\<close>.
\<close>

definition normalizeLanguage :: "string \<Rightarrow> jsval" where
  "normalizeLanguage language =
     orValue (getProperty aliases (toLowerCase language)) (JString (toLowerCase language))"

text \<open>
  The promise of \<^verbatim>\<open>tokenizeWithTimeout\<close> carries a \<^verbatim>\<open>catch\<close> handler that answers
  every failure of the race with the minimal highlighting, so it is never rejected.
\<close>

definition tokenizeWithTimeout ::
  "race \<Rightarrow> string \<Rightarrow> string \<Rightarrow> ThemeData \<Rightarrow> rat \<Rightarrow> failure + TokenizedCode" where
  "tokenizeWithTimeout race code language themeData timeout =
     (case race code language themeData timeout of
        Inr tokenized \<Rightarrow> Inr tokenized
      | Inl error \<Rightarrow> Inr (createMinimalHighlighting code language themeData))"

definition shiftToken :: "nat \<Rightarrow> Token \<Rightarrow> Token" where
  "shiftToken currentPosition token =
     token\<lparr>t_startIndex := t_startIndex token + currentPosition,
           t_endIndex := t_endIndex token + currentPosition\<rparr>"

text \<open>
  The chunk loop of \<^verbatim>\<open>tokenizeWithStreaming\<close>: \<open>i\<close> is the index of the first line of
  the chunk, \<^verbatim>\<open>lines.slice(i, i + 500).join('\n')\<close> is the chunk.
\<close>

function streamChunks ::
  "race \<Rightarrow> string \<Rightarrow> ThemeData \<Rightarrow> rat \<Rightarrow> string list \<Rightarrow> nat \<Rightarrow> nat \<Rightarrow> Token list" where
  "streamChunks race language themeData timeout lines i currentPosition =
     (if i < length lines then
        (let chunk = join_newline (take STREAMING_CHUNK_SIZE (drop i lines)) in
         case tokenizeWithTimeout race chunk language themeData (timeout / 10) of
           Inr chunkResult \<Rightarrow>
             map (shiftToken currentPosition) (tc_tokens chunkResult)
             @ streamChunks race language themeData timeout lines (i + STREAMING_CHUNK_SIZE)
                 (currentPosition + length chunk
                  + (if i + STREAMING_CHUNK_SIZE < length lines then 1 else 0))
         | Inl error \<Rightarrow>
             textToken themeData chunk currentPosition (currentPosition + length chunk)
             # streamChunks race language themeData timeout lines (i + STREAMING_CHUNK_SIZE)
                 (currentPosition + length chunk + 1))
      else [])"
  by pat_completeness auto
termination
  by (relation "measure (\<lambda>(race, language, themeData, timeout, lines, i, currentPosition).
                           length lines - i)")
     (auto simp: STREAMING_CHUNK_SIZE_def)

declare streamChunks.simps [simp del]

definition tokenizeWithStreaming ::
  "race \<Rightarrow> string \<Rightarrow> string \<Rightarrow> ThemeData \<Rightarrow> rat \<Rightarrow> failure + TokenizedCode" where
  "tokenizeWithStreaming race code language themeData timeout =
     Inr \<lparr>tc_language = normalizeLanguage language,
          tc_tokens = streamChunks race language themeData timeout (split_newline code) 0 0\<rparr>"

definition tokenize ::
  "race \<Rightarrow> string \<Rightarrow> string \<Rightarrow> ThemeData \<Rightarrow> int \<Rightarrow> rat \<Rightarrow> TokenizedCode" where
  "tokenize race code language themeData maxBlockSize timeout =
     (case (if isLargeBlock code maxBlockSize
            then tokenizeWithStreaming race code language themeData timeout
            else tokenizeWithTimeout race code language themeData timeout) of
        Inr tokenized \<Rightarrow> tokenized
      | Inl error \<Rightarrow> createMinimalHighlighting code language themeData)"

section \<open>The cache manager\<close>

text \<open>
  The \<^verbatim>\<open>Map\<close> of the cache is an association list with distinct keys in insertion
  order: \<^verbatim>\<open>get\<close> is \<^const>\<open>map_of\<close>, \<^verbatim>\<open>set\<close> is \<^const>\<open>AList.update\<close>,
  \<^verbatim>\<open>delete\<close> is \<^const>\<open>AList.delete\<close> and \<^verbatim>\<open>size\<close> is the length.
  \<^verbatim>\<open>Date.now()\<close> is the argument \<open>now\<close> of the operations that read the clock.
\<close>

record 'v CacheEntry =
  e_key :: string
  e_value :: 'v
  e_timestamp :: nat

record 'v CacheManager =
  cache :: "(string \<times> 'v CacheEntry) list"
  maxSize :: int
  accessOrder :: "string list"

definition newCacheManager :: "int \<Rightarrow> 'v CacheManager" where
  "newCacheManager initialMaxSize = \<lparr>cache = [], maxSize = initialMaxSize, accessOrder = []\<rparr>"

definition updateAccessOrder :: "string \<Rightarrow> 'v CacheManager \<Rightarrow> 'v CacheManager" where
  "updateAccessOrder key c = c\<lparr>accessOrder := filter (\<lambda>k. k \<noteq> key) (accessOrder c) @ [key]\<rparr>"

text \<open>
  \<^verbatim>\<open>if (keyToEvict)\<close> tests the key for truthiness: the empty string is a key that
  leaves the access order and stays in the map.
\<close>

definition evictLeastRecentlyUsed :: "'v CacheManager \<Rightarrow> 'v CacheManager" where
  "evictLeastRecentlyUsed c =
     (case accessOrder c of
        [] \<Rightarrow> c
      | keyToEvict # rest \<Rightarrow>
          if keyToEvict \<noteq> []
          then c\<lparr>accessOrder := rest, cache := AList.delete keyToEvict (cache c)\<rparr>
          else c\<lparr>accessOrder := rest\<rparr>)"

definition cacheGet :: "nat \<Rightarrow> string \<Rightarrow> 'v CacheManager \<Rightarrow> 'v option \<times> 'v CacheManager" where
  "cacheGet now key c =
     (case map_of (cache c) key of
        None \<Rightarrow> (None, c)
      | Some entry \<Rightarrow>
          (Some (e_value entry),
           (updateAccessOrder key c)
             \<lparr>cache := AList.update key (entry\<lparr>e_timestamp := now\<rparr>) (cache c)\<rparr>))"

definition cacheSet :: "nat \<Rightarrow> string \<Rightarrow> 'v \<Rightarrow> 'v CacheManager \<Rightarrow> 'v CacheManager" where
  "cacheSet now key v c =
     (case map_of (cache c) key of
        Some entry \<Rightarrow>
          updateAccessOrder key
            (c\<lparr>cache := AList.update key (entry\<lparr>e_value := v, e_timestamp := now\<rparr>) (cache c)\<rparr>)
      | None \<Rightarrow>
          (let c' = (if maxSize c \<le> int (length (cache c)) then evictLeastRecentlyUsed c else c)
           in c'\<lparr>cache := AList.update key \<lparr>e_key = key, e_value = v, e_timestamp = now\<rparr> (cache c'),
                 accessOrder := accessOrder c' @ [key]\<rparr>))"

definition cacheHas :: "string \<Rightarrow> 'v CacheManager \<Rightarrow> bool" where
  "cacheHas key c \<longleftrightarrow> map_of (cache c) key \<noteq> None"

definition cacheSize :: "'v CacheManager \<Rightarrow> nat" where
  "cacheSize c = length (cache c)"

section \<open>The theme kind of a background color\<close>

subsection \<open>Numbers\<close>

text \<open>
  The luminance is computed in double precision. \<open>fl\<close> rounds a rational to the nearest
  number with a significand of 53 bits, ties to even; the exponent is not bounded, so a
  value beyond the largest double, which the source holds as \<^verbatim>\<open>Infinity\<close>, is a large
  rational here, and both lie above every threshold. \<^verbatim>\<open>NaN\<close> is \<open>None\<close>: it
  propagates through the arithmetic and makes every comparison false.
\<close>

definition roundHalfEven :: "rat \<Rightarrow> int" where
  "roundHalfEven q =
     (let f = \<lfloor>q\<rfloor>; d = q - of_int f
      in if d < 1 / 2 then f else if 1 / 2 < d then f + 1 else if even f then f else f + 1)"

function exponentOf :: "rat \<Rightarrow> int" where
  \<comment> \<open>for \<open>x > 0\<close>, the \<open>e\<close> with \<open>2 ^ e \<le> x < 2 ^ (e + 1)\<close>\<close>
  "exponentOf x =
     (if x \<le> 0 then 0
      else if 2 \<le> x then exponentOf (x / 2) + 1
      else if x < 1 then exponentOf (x * 2) - 1
      else 0)"
  by pat_completeness auto
termination
proof (relation "measure (\<lambda>x. 2 * nat \<lceil>1 / x\<rceil> + nat \<lfloor>x\<rfloor>)", goal_cases)
  case 1
  then show ?case by simp
next
  case (2 x)
  then have x: "2 \<le> x" by simp
  then have "\<lfloor>x / 2\<rfloor> < \<lfloor>x\<rfloor>" by linarith
  moreover have "\<lceil>1 / (x / 2)\<rceil> = 1" "\<lceil>1 / x\<rceil> = 1"
    using x by (simp_all add: ceiling_eq_iff field_simps)
  ultimately show ?case using x by simp
next
  case (3 x)
  then have x: "0 < x" "x < 1" by simp_all
  have "\<lfloor>x * 2\<rfloor> \<le> 1" using x by linarith
  moreover have "\<lfloor>x\<rfloor> = 0" using x by linarith
  moreover have "\<lceil>1 / (x * 2)\<rceil> < \<lceil>1 / x\<rceil>"
  proof -
    define y where "y = 1 / x"
    have y: "1 < y" using x by (simp add: y_def)
    have "2 \<le> \<lceil>y\<rceil>" using y by (simp add: le_ceiling_iff)
    then have "(2::rat) \<le> of_int \<lceil>y\<rceil>" by linarith
    with le_of_int_ceiling [of y] have "y / 2 \<le> of_int \<lceil>y\<rceil> - 1" by linarith
    then have "\<lceil>y / 2\<rceil> < \<lceil>y\<rceil>" by (simp add: ceiling_less_iff)
    then show ?thesis by (simp add: y_def)
  qed
  moreover have "0 < \<lceil>1 / x\<rceil>" using x by simp
  ultimately show ?case using x by simp linarith
qed

declare exponentOf.simps [simp del]

definition fl :: "rat \<Rightarrow> rat" where
  "fl x = (if x = 0 then 0
           else (let u = 2 powi (exponentOf \<bar>x\<bar> - 52) in of_int (roundHalfEven (x / u)) * u))"

type_synonym number = "rat option"

definition lit :: "rat \<Rightarrow> number" where
  \<comment> \<open>a numeric literal, or the conversion of an integer to a number\<close>
  "lit x = Some (fl x)"

definition mulN :: "number \<Rightarrow> number \<Rightarrow> number" where
  "mulN a b = (case (a, b) of (Some x, Some y) \<Rightarrow> Some (fl (x * y)) | _ \<Rightarrow> None)"

definition addN :: "number \<Rightarrow> number \<Rightarrow> number" where
  "addN a b = (case (a, b) of (Some x, Some y) \<Rightarrow> Some (fl (x + y)) | _ \<Rightarrow> None)"

definition div255 :: "number \<Rightarrow> number" where
  "div255 a = (case a of Some x \<Rightarrow> Some (fl (x / 255)) | None \<Rightarrow> None)"

definition lessN :: "number \<Rightarrow> number \<Rightarrow> bool" where
  "lessN a b \<longleftrightarrow> (case (a, b) of (Some x, Some y) \<Rightarrow> x < y | _ \<Rightarrow> False)"

subsection \<open>Parsing the color\<close>

definition isWhiteSpace :: "char \<Rightarrow> bool" where
  \<comment> \<open>white space and line terminators among the code units 0 to 255\<close>
  "isWhiteSpace c \<longleftrightarrow> (of_char c :: nat) \<in> set [9, 10, 11, 12, 13, 32, 160]"

definition digitValue :: "char \<Rightarrow> nat" where
  \<comment> \<open>the value of a digit in a radix up to 36; 36 for every other character\<close>
  "digitValue c =
     (let n = (of_char c :: nat)
      in if 48 \<le> n \<and> n \<le> 57 then n - 48
         else if 97 \<le> n \<and> n \<le> 122 then n - 87
         else if 65 \<le> n \<and> n \<le> 90 then n - 55
         else 36)"

definition parseInt :: "string \<Rightarrow> nat option \<Rightarrow> number" where
  \<comment> \<open>\<^verbatim>\<open>parseInt(s, radix)\<close>; the radix is \<open>None\<close> when the call gives none\<close>
  "parseInt s radix =
     (let t = dropWhile isWhiteSpace s;
          negative = prefix ''-'' t;
          u = (if prefix ''-'' t \<or> prefix ''+'' t then drop 1 t else t);
          hexPrefix = (radix \<in> {None, Some 0, Some 16} \<and> (prefix ''0x'' u \<or> prefix ''0X'' u));
          R = (case radix of
                 None \<Rightarrow> if hexPrefix then 16 else 10
               | Some r \<Rightarrow> if r = 0 then (if hexPrefix then 16 else 10) else r);
          ds = takeWhile (\<lambda>c. digitValue c < R) (if hexPrefix then drop 2 u else u);
          v = foldl (\<lambda>a c. a * R + digitValue c) 0 ds
      in if R < 2 \<or> 36 < R \<or> ds = [] then None
         else lit (if negative then - of_nat v else of_nat v))"

record RGB =
  rgb_r :: number
  rgb_g :: number
  rgb_b :: number

text \<open>
  The pattern \<^verbatim>\<open>/rgba?\((\d+),\s*(\d+),\s*(\d+)/\<close>, searched from the left. Every
  quantifier in it is followed by a character it cannot consume itself, so only its
  longest run can lead to a match.
\<close>

definition expect :: "char \<Rightarrow> string \<Rightarrow> string option" where
  "expect c s = (case s of [] \<Rightarrow> None | d # rest \<Rightarrow> if d = c then Some rest else None)"

definition digitsRun :: "string \<Rightarrow> (string \<times> string) option" where
  "digitsRun s =
     (let ds = takeWhile isDigit s in if ds = [] then None else Some (ds, dropWhile isDigit s))"

definition rgbAt :: "string \<Rightarrow> (string \<times> string \<times> string) option" where
  "rgbAt s =
     (if prefix ''rgb'' s then
        Option.bind (expect (CHR ''('') (if prefix ''a'' (drop 3 s) then drop 4 s else drop 3 s))
          (\<lambda>s1. Option.bind (digitsRun s1)
          (\<lambda>(d1, s2). Option.bind (expect (CHR '','') s2)
          (\<lambda>s3. Option.bind (digitsRun (dropWhile isWhiteSpace s3))
          (\<lambda>(d2, s4). Option.bind (expect (CHR '','') s4)
          (\<lambda>s5. Option.bind (digitsRun (dropWhile isWhiteSpace s5))
          (\<lambda>(d3, s6). Some (d1, d2, d3)))))))
      else None)"

fun rgbMatch :: "string \<Rightarrow> (string \<times> string \<times> string) option" where
  "rgbMatch [] = None"
| "rgbMatch (c # cs) =
     (case rgbAt (c # cs) of Some groups \<Rightarrow> Some groups | None \<Rightarrow> rgbMatch cs)"

definition parseColor :: "string \<Rightarrow> RGB option" where
  "parseColor color =
     (let hex = drop 1 color in
      if prefix ''#'' color \<and> length hex = 6
      then Some \<lparr>rgb_r = parseInt (take 2 hex) (Some 16),
                 rgb_g = parseInt (take 2 (drop 2 hex)) (Some 16),
                 rgb_b = parseInt (take 2 (drop 4 hex)) (Some 16)\<rparr>
      else (case rgbMatch color of
              Some (d1, d2, d3) \<Rightarrow>
                Some \<lparr>rgb_r = parseInt d1 None, rgb_g = parseInt d2 None,
                      rgb_b = parseInt d3 None\<rparr>
            | None \<Rightarrow> None))"

subsection \<open>The classification\<close>

definition luminanceOf :: "RGB \<Rightarrow> number" where
  \<comment> \<open>\<^verbatim>\<open>(0.299 * rgb.r + 0.587 * rgb.g + 0.114 * rgb.b) / 255\<close>\<close>
  "luminanceOf rgb =
     div255 (addN (addN (mulN (lit (299 / 1000)) (rgb_r rgb))
                        (mulN (lit (587 / 1000)) (rgb_g rgb)))
                  (mulN (lit (114 / 1000)) (rgb_b rgb)))"

definition detectThemeKind :: "string \<Rightarrow> ThemeKind" where
  "detectThemeKind bgColor =
     (case parseColor bgColor of
        None \<Rightarrow> dark
      | Some rgb \<Rightarrow>
          (let luminance = luminanceOf rgb in
           if lessN luminance (lit (5 / 100)) \<or> lessN (lit (95 / 100)) luminance then highContrast
           else if lessN (lit (5 / 10)) luminance then light
           else dark))"

subsection \<open>The built-in palettes\<close>

definition extractTokenColorsFromTheme :: "ThemeKind \<Rightarrow> (string \<rightharpoonup> string)" where
  "extractTokenColorsFromTheme k =
     (case k of
        light \<Rightarrow> map_of
          [(''comment'', ''#008000''), (''string'', ''#a31515''), (''keyword'', ''#0000ff''),
           (''number'', ''#098658''), (''function'', ''#795e26''), (''class'', ''#267f99''),
           (''variable'', ''#001080''), (''constant'', ''#0070c1''), (''operator'', ''#000000''),
           (''type'', ''#267f99''), (''parameter'', ''#001080''), (''property'', ''#001080''),
           (''punctuation'', ''#000000''), (''regexp'', ''#811f3f'')]
      | dark \<Rightarrow> map_of
          [(''comment'', ''#6a9955''), (''string'', ''#ce9178''), (''keyword'', ''#569cd6''),
           (''number'', ''#b5cea8''), (''function'', ''#dcdcaa''), (''class'', ''#4ec9b0''),
           (''variable'', ''#9cdcfe''), (''constant'', ''#4fc1ff''), (''operator'', ''#d4d4d4''),
           (''type'', ''#4ec9b0''), (''parameter'', ''#9cdcfe''), (''property'', ''#9cdcfe''),
           (''punctuation'', ''#d4d4d4''), (''regexp'', ''#d16969'')]
      | highContrast \<Rightarrow> map_of
          [(''comment'', ''#7ca668''), (''string'', ''#ce9178''), (''keyword'', ''#569cd6''),
           (''number'', ''#b5cea8''), (''function'', ''#dcdcaa''), (''class'', ''#4ec9b0''),
           (''variable'', ''#ffffff''), (''constant'', ''#4fc1ff''), (''operator'', ''#ffffff''),
           (''type'', ''#4ec9b0''), (''parameter'', ''#ffffff''), (''property'', ''#ffffff''),
           (''punctuation'', ''#ffffff''), (''regexp'', ''#d16969'')])"

text \<open>
  The theme that \<^verbatim>\<open>detectThemeFromDOM\<close> builds when the host sets none of the style
  variables it reads: every \<^verbatim>\<open>getCSSVar\<close> gives its fallback, and the background
  \<^verbatim>\<open>#1e1e1e\<close> is classified as dark.
\<close>

definition fallbackTheme :: ThemeData where
  "fallbackTheme =
     \<lparr>kind = dark, colors = extractTokenColorsFromTheme dark,
      background = ''#1e1e1e'', foreground = ''#d4d4d4'', borderColor = ''#404040'',
      borderColorSubtle = ''#303030'', buttonBackground = ''#252526cc'',
      buttonForeground = ''#cccccc'', buttonHoverBackground = ''#2a2d2e'',
      accentColor = ''#569cd6''\<rparr>"

section \<open>Notions used in the statements\<close>

text \<open>
  A match found in a line is valid when it is non-empty and ends inside the line; its
  type is one of the four pattern families. A chain from \<open>p\<close> is a list of non-empty
  matches, each starting at or after the end of the one before, the first at or after
  \<open>p\<close>.
\<close>

definition validMatch :: "string \<Rightarrow> Match \<Rightarrow> bool" where
  "validMatch line m \<longleftrightarrow> m_start m < m_end m \<and> m_end m \<le> length line"

definition matchTypes :: "string list" where
  "matchTypes = [''comment'', ''string'', ''number'', ''keyword'']"

fun chain :: "nat \<Rightarrow> Match list \<Rightarrow> bool" where
  "chain p [] = True"
| "chain p (m # ms) = (p \<le> m_start m \<and> m_start m < m_end m \<and> chain (m_end m) ms)"

text \<open>
  The token types the pattern tokenizers can give a span, and the other types the
  repository declares.
\<close>

definition spanTypes :: "string list" where
  "spanTypes = [''text'', ''comment'', ''string'', ''number'', ''keyword'']"

definition otherTypes :: "string list" where
  "otherTypes = [''function'', ''class'', ''variable'', ''constant'', ''operator'', ''type'',
                 ''parameter'', ''property'', ''punctuation'', ''regexp'']"

text \<open>The palette key that the colorizer of the service looks up for a token type.\<close>

definition paletteKey :: "string \<Rightarrow> string" where
  \<comment> \<open>the palette key of a token type in the service: the table entry, else \<open>variable\<close>\<close>
  "paletteKey tokenType = (case typeMapping tokenType of Some key \<Rightarrow> key | None \<Rightarrow> ''variable'')"

text \<open>
  A race round-trips when the tokens of every resolved tokenization spell the text that
  was tokenized.
\<close>

definition roundTrips :: "race \<Rightarrow> string \<Rightarrow> ThemeData \<Rightarrow> rat \<Rightarrow> bool" where
  \<comment> \<open>whenever the race resolves for a chunk, its tokens spell the chunk\<close>
  "roundTrips race language themeData timeout \<longleftrightarrow>
     (\<forall>chunk tokenized. race chunk language themeData timeout = Inr tokenized \<longrightarrow>
        concat (map t_text (tc_tokens tokenized)) = chunk)"

text \<open>
  The chunks of a large block: the \<open>k\<close>-th chunk is the \<open>k\<close>-th slice of 500 lines,
  joined by line feeds, and it starts where the chunks before it end, each followed by
  one line feed.
\<close>

definition chunkCount :: "string list \<Rightarrow> nat" where
  "chunkCount lines = (length lines + 499) div 500"

definition chunkAt :: "string list \<Rightarrow> nat \<Rightarrow> string" where
  "chunkAt lines k = join_newline (take 500 (drop (500 * k) lines))"

definition chunkStart :: "string list \<Rightarrow> nat \<Rightarrow> nat" where
  "chunkStart lines k = sum_list (map (\<lambda>j. length (chunkAt lines j) + 1) [0..<k])"

text \<open>The unit roundoff of double precision.\<close>

definition unitRoundoff :: rat where
  "unitRoundoff = 1 / 2 ^ 53"

text \<open>
  The invariant of the cache, and the insertion of a list of keys one after the other.
\<close>

definition cacheInvariant :: "'v CacheManager \<Rightarrow> bool" where
  \<comment> \<open>the access order lists exactly the keys of the map, each once\<close>
  "cacheInvariant c \<longleftrightarrow>
     distinct (map fst (cache c)) \<and> distinct (accessOrder c) \<and>
     set (accessOrder c) = fst ` set (cache c)"

definition insertKeys :: "nat \<Rightarrow> 'v \<Rightarrow> 'v CacheManager \<Rightarrow> string list \<Rightarrow> 'v CacheManager" where
  \<comment> \<open>\<^verbatim>\<open>set(k, v)\<close> for each key of the list in turn\<close>
  "insertKeys now v c ks = foldl (\<lambda>c' k. cacheSet now k v c') c ks"

section \<open>Lossless reconstruction\<close>

lemma split_newline_nonempty: "split_newline s \<noteq> []"
  by (induction s) (auto split: list.splits)

lemma join_split_newline: "join_newline (split_newline s) = s"
proof (induction s)
  case Nil
  then show ?case by simp
next
  case (Cons c cs)
  show ?case
  proof (cases "split_newline cs")
    case Nil
    then show ?thesis using split_newline_nonempty by simp
  next
    case (Cons l ls)
    with Cons.IH show ?thesis by (cases ls) auto
  qed
qed

lemma findClose_bound: "findClose r = Some k \<Longrightarrow> k + 2 \<le> length r"
  by (induction r arbitrary: k rule: findClose.induct) (auto split: if_splits)

lemma restOfLine_bound: "restOfLine r \<le> length r"
  by (simp add: restOfLine_def length_takeWhile_le)

lemma commentAt_bound: "commentAt s i = Some e \<Longrightarrow> e \<le> length s"
proof -
  assume a: "commentAt s i = Some e"
  have r2: "restOfLine (drop 2 (drop i s)) \<le> length s - i - 2"
    using restOfLine_bound [of "drop 2 (drop i s)"] by simp
  have r1: "restOfLine (drop 1 (drop i s)) \<le> length s - i - 1"
    using restOfLine_bound [of "drop 1 (drop i s)"] by simp
  have p2: "2 \<le> length s - i" if "prefix [a, b] (drop i s)" for a b
    using that prefix_length_le by fastforce
  have p1: "1 \<le> length s - i" if "prefix [a] (drop i s)" for a
    using that prefix_length_le by fastforce
  from a show ?thesis
    using r1 r2 p1 p2 findClose_bound [of "drop 2 (drop i s)"]
    by (fastforce simp: commentAt_def Let_def split: if_splits)
qed

lemma stringBody_bound: "stringBody q r = Some n \<Longrightarrow> 0 < n \<and> n \<le> length r"
  by (induction q r arbitrary: n rule: stringBody.induct)
     (auto split: if_splits list.splits)

lemma stringAt_bound: "stringAt s i = Some e \<Longrightarrow> e \<le> length s"
proof -
  assume a: "stringAt s i = Some e"
  then obtain q r n where d: "drop i s = q # r" and n: "stringBody q r = Some n" and e: "e = i + 1 + n"
    by (auto simp: stringAt_def split: list.splits if_splits)
  from d have "length s - i = Suc (length r)"
    by (metis length_drop length_Cons)
  with stringBody_bound [OF n] e show ?thesis by linarith
qed

lemma numberEnds_bound:
  assumes "n \<le> length s - i" "i \<le> length s" "e \<in> set (numberEnds s i n)"
  shows "e \<le> length s"
proof -
  have t: "length (takeWhile isDigit (drop (Suc (i + n)) s)) \<le> length s - Suc (i + n)"
    using length_takeWhile_le [of isDigit "drop (Suc (i + n)) s"] by simp
  from assms t show ?thesis
    by (auto simp: numberEnds_def Let_def split: if_splits)
qed

lemma numberAt_bound: "numberAt s i = Some e \<Longrightarrow> e \<le> length s"
proof -
  assume a: "numberAt s i = Some e"
  define n where "n = length (takeWhile isDigit (drop i s))"
  from a have n0: "0 < n" and f: "find (wordBoundary s) (numberEnds s i n) = Some e"
    by (auto simp: numberAt_def Let_def n_def split: if_splits)
  have nb: "n \<le> length s - i"
    unfolding n_def using length_takeWhile_le [of isDigit "drop i s"] by simp
  with n0 have "i \<le> length s" by simp
  with nb find_Some_mem [OF f] show ?thesis
    using numberEnds_bound by blast
qed

lemma matchesIgnoreCase_length: "matchesIgnoreCase kw rest \<Longrightarrow> length kw \<le> length rest"
  by (induction kw rest rule: matchesIgnoreCase.induct) (auto split: if_splits)

lemma keywordAt_bound:
  assumes "[] \<notin> set keywords" "keywordAt keywords s i = Some e"
  shows "e \<le> length s"
proof -
  from assms(2) obtain kw where kw: "kw \<in> set keywords" "matchesIgnoreCase kw (drop i s)"
    and e: "e = i + length kw"
    by (auto simp: keywordAt_def split: if_splits dest!: find_Some_mem)
  from kw(1) assms(1) have "0 < length kw" by auto
  moreover from matchesIgnoreCase_length [OF kw(2)] have "length kw \<le> length s - i" by simp
  ultimately show ?thesis using e by linarith
qed

lemma commentExec_valid:
  "m \<in> set (commentExec line i) \<Longrightarrow> validMatch line m \<and> m_type m = ''comment''"
proof (induction line i rule: commentExec.induct)
  case (1 line i)
  from "1.prems" have "m \<in> set (if length line < i then []
      else (case commentAt line i of
              None \<Rightarrow> commentExec line (i + 1)
            | Some e \<Rightarrow> \<lparr>m_start = i, m_end = e, m_type = ''comment''\<rparr> # commentExec line e))"
    by (subst (asm) commentExec.simps) simp
  with "1.IH" show ?case
    by (auto simp: validMatch_def split: if_splits option.splits
             dest: commentAt_advances commentAt_bound)
qed

lemma stringExec_valid:
  "m \<in> set (stringExec line i) \<Longrightarrow> validMatch line m \<and> m_type m = ''string''"
proof (induction line i rule: stringExec.induct)
  case (1 line i)
  from "1.prems" have "m \<in> set (if length line < i then []
      else (case stringAt line i of
              None \<Rightarrow> stringExec line (i + 1)
            | Some e \<Rightarrow> \<lparr>m_start = i, m_end = e, m_type = ''string''\<rparr> # stringExec line e))"
    by (subst (asm) stringExec.simps) simp
  with "1.IH" show ?case
    by (auto simp: validMatch_def split: if_splits option.splits
             dest: stringAt_advances stringAt_bound)
qed

lemma numberExec_valid:
  "m \<in> set (numberExec line i) \<Longrightarrow> validMatch line m \<and> m_type m = ''number''"
proof (induction line i rule: numberExec.induct)
  case (1 line i)
  from "1.prems" have "m \<in> set (if length line < i then []
      else (case numberAt line i of
              None \<Rightarrow> numberExec line (i + 1)
            | Some e \<Rightarrow> \<lparr>m_start = i, m_end = e, m_type = ''number''\<rparr> # numberExec line e))"
    by (subst (asm) numberExec.simps) simp
  with "1.IH" show ?case
    by (auto simp: validMatch_def split: if_splits option.splits
             dest: numberAt_advances numberAt_bound)
qed

lemma keywordExec_valid:
  "m \<in> set (keywordExec line i) \<Longrightarrow> validMatch line m \<and> m_type m = ''keyword''"
proof (induction line i rule: keywordExec.induct)
  case (1 line i)
  from "1.prems" have "m \<in> set (if length line < i then []
      else (case keywordAt keywords_preview line i of
              None \<Rightarrow> keywordExec line (i + 1)
            | Some e \<Rightarrow> \<lparr>m_start = i, m_end = e, m_type = ''keyword''\<rparr> # keywordExec line e))"
    by (subst (asm) keywordExec.simps) simp
  with "1.IH" show ?case
    by (auto simp: validMatch_def split: if_splits option.splits
             dest: keywordAt_advances [OF keywords_preview_nonempty] keywordAt_bound [OF keywords_preview_nonempty])
qed

lemma keywordExecMinimal_valid:
  "m \<in> set (keywordExecMinimal line i) \<Longrightarrow> validMatch line m \<and> m_type m = ''keyword''"
proof (induction line i rule: keywordExecMinimal.induct)
  case (1 line i)
  from "1.prems" have "m \<in> set (if length line < i then []
      else (case keywordAt keywords_minimal line i of
              None \<Rightarrow> keywordExecMinimal line (i + 1)
            | Some e \<Rightarrow> \<lparr>m_start = i, m_end = e, m_type = ''keyword''\<rparr> # keywordExecMinimal line e))"
    by (subst (asm) keywordExecMinimal.simps) simp
  with "1.IH" show ?case
    by (auto simp: validMatch_def split: if_splits option.splits
             dest: keywordAt_advances [OF keywords_minimal_nonempty] keywordAt_bound [OF keywords_minimal_nonempty])
qed

lemma findMatches_valid:
  "m \<in> set (findMatches line) \<Longrightarrow> validMatch line m \<and> m_type m \<in> set matchTypes"
  unfolding findMatches_def matchTypes_def
  using commentExec_valid stringExec_valid numberExec_valid keywordExec_valid by fastforce

lemma findMatchesMinimal_valid:
  "m \<in> set (findMatchesMinimal line) \<Longrightarrow> validMatch line m \<and> m_type m \<in> set matchTypes"
  unfolding findMatchesMinimal_def matchTypes_def
  using commentExec_valid stringExec_valid numberExec_valid keywordExecMinimal_valid by fastforce

lemma removeOverlaps_subset: "set (removeOverlaps lastEnd ms) \<subseteq> set ms"
  by (induction ms arbitrary: lastEnd) auto

lemma removeOverlaps_chain:
  "\<forall>m \<in> set ms. m_start m < m_end m \<Longrightarrow> chain (nat lastEnd) (removeOverlaps lastEnd ms)"
proof (induction ms arbitrary: lastEnd)
  case Nil
  then show ?case by simp
next
  case (Cons m ms)
  from Cons.prems have rest: "\<forall>m \<in> set ms. m_start m < m_end m" by simp
  have "chain (m_end m) (removeOverlaps (int (m_end m)) ms)"
    using Cons.IH [OF rest, of "int (m_end m)"] by simp
  moreover have "chain (nat lastEnd) (removeOverlaps lastEnd ms)"
    using Cons.IH [OF rest] .
  ultimately show ?case using Cons.prems by auto
qed

lemma filteredMatches_chain: "chain 0 (filteredMatches line)"
  using removeOverlaps_chain [of "sortByStart (findMatches line)" "-1"] findMatches_valid
  by (auto simp: filteredMatches_def sortByStart_def validMatch_def)

lemma filteredMatches_valid:
  "m \<in> set (filteredMatches line) \<Longrightarrow> validMatch line m \<and> m_type m \<in> set matchTypes"
  using removeOverlaps_subset [of "-1" "sortByStart (findMatches line)"] findMatches_valid
  by (auto simp: filteredMatches_def sortByStart_def)

lemma substring_take_drop:
  "a \<le> b \<Longrightarrow> b \<le> length s \<Longrightarrow> substring s a b = take (b - a) (drop a s)"
  by (simp add: substring_def Let_def min_def max_def)

lemma take_drop_append: "a \<le> b \<Longrightarrow> take (b - a) (drop a s) @ drop b s = drop a s"
  by (metis add_diff_inverse_nat append_take_drop_id drop_drop not_less add.commute)

lemma createTokens_roundtrip:
  "chain position ms \<Longrightarrow> \<forall>m \<in> set ms. m_end m \<le> length line \<Longrightarrow> position \<le> length line \<Longrightarrow>
   concat (map s_text (createTokens line position ms)) = drop position line"
proof (induction ms arbitrary: position)
  case Nil
  then show ?case by (simp add: substringFrom_def)
next
  case (Cons m ms)
  from Cons.prems have le: "position \<le> m_start m" "m_start m < m_end m" "m_end m \<le> length line"
    and ch: "chain (m_end m) ms" by auto
  have ih: "concat (map s_text (createTokens line (m_end m) ms)) = drop (m_end m) line"
    using Cons.IH [OF ch] Cons.prems le by simp
  have a: "substring line position (m_start m) = take (m_start m - position) (drop position line)"
    using le by (simp add: substring_take_drop)
  have b: "substring line (m_start m) (m_end m) = take (m_end m - m_start m) (drop (m_start m) line)"
    using le by (simp add: substring_take_drop)
  have c: "take (m_end m - m_start m) (drop (m_start m) line) @ drop (m_end m) line = drop (m_start m) line"
    using le by (simp add: take_drop_append)
  have d: "take (m_start m - position) (drop position line) @ drop (m_start m) line = drop position line"
    using le by (simp add: take_drop_append)
  show ?case
  proof (cases "position < m_start m")
    case True
    then show ?thesis using ih a b c d by simp
  next
    case False
    with le have "position = m_start m" by simp
    then show ?thesis using ih b c by simp
  qed
qed

lemma tokenizeLine_roundtrip: "concat (map s_text (tokenizeLine line)) = line"
  using createTokens_roundtrip [OF filteredMatches_chain, of line] filteredMatches_valid
  by (simp add: tokenizeLine_def validMatch_def)

lemma tokenizeLines_roundtrip: "concat (map s_text (tokenizeLines ls)) = join_newline ls"
  by (induction ls rule: tokenizeLines.induct) (simp_all add: tokenizeLine_roundtrip)

lemma tokenizeCode_roundtrip: "concat (map s_text (tokenizeCode code language)) = code"
  by (simp add: tokenizeCode_def tokenizeLines_roundtrip join_split_newline)

lemma filteredMatchesMinimal_chain: "chain 0 (filteredMatchesMinimal line)"
  using removeOverlaps_chain [of "sortByStart (findMatchesMinimal line)" "-1"]
    findMatchesMinimal_valid
  by (auto simp: filteredMatchesMinimal_def sortByStart_def validMatch_def)

lemma filteredMatchesMinimal_valid:
  "m \<in> set (filteredMatchesMinimal line) \<Longrightarrow> validMatch line m \<and> m_type m \<in> set matchTypes"
  using removeOverlaps_subset [of "-1" "sortByStart (findMatchesMinimal line)"]
    findMatchesMinimal_valid
  by (auto simp: filteredMatchesMinimal_def sortByStart_def)

lemma createTokensMinimal_texts:
  "map t_text (createTokensMinimal themeData line position linePosition ms)
   = map s_text (createTokens line linePosition ms)"
  by (induction ms arbitrary: linePosition) (simp_all add: textToken_def)

lemma minimalLine_roundtrip: "concat (map t_text (minimalLine themeData position line)) = line"
  using createTokens_roundtrip [OF filteredMatchesMinimal_chain, of line]
    filteredMatchesMinimal_valid
  by (simp add: minimalLine_def createTokensMinimal_texts validMatch_def)

lemma minimalLines_roundtrip:
  "concat (map t_text (minimalLines themeData position ls)) = join_newline ls"
  by (induction themeData position ls rule: minimalLines.induct)
     (simp_all add: minimalLine_roundtrip textToken_def)

lemma createMinimalHighlighting_roundtrip:
  "concat (map t_text (tc_tokens (createMinimalHighlighting code language themeData))) = code"
proof (cases "minimalLines themeData 0 (split_newline code)")
  case Nil
  then have "code = []"
    using minimalLines_roundtrip [of themeData 0 "split_newline code"]
    by (simp add: join_split_newline)
  with Nil show ?thesis
    by (simp add: createMinimalHighlighting_def Let_def textToken_def)
next
  case (Cons t ts)
  then show ?thesis
    using minimalLines_roundtrip [of themeData 0 "split_newline code"]
    by (simp add: createMinimalHighlighting_def Let_def join_split_newline)
qed

text \<open>
  Claim C1. For every source text and every language hint, the texts of the spans that
  \<^verbatim>\<open>tokenizeCode\<close> returns, concatenated in order, are the source text, and so are the
  texts of the tokens of \<^verbatim>\<open>createMinimalHighlighting\<close>, for every theme; the line feeds
  put back between the lines are part of it.
\<close>

theorem C1_roundtrip:
  "concat (map s_text (tokenizeCode code language)) = code \<and>
   concat (map t_text (tc_tokens (createMinimalHighlighting code language themeData))) = code"
  by (simp add: tokenizeCode_roundtrip createMinimalHighlighting_roundtrip)

section \<open>Span types\<close>

lemma createTokens_types:
  "\<forall>m \<in> set ms. m_type m \<in> set matchTypes \<Longrightarrow> t \<in> set (createTokens line position ms) \<Longrightarrow>
   s_type t \<in> set spanTypes"
  by (induction ms arbitrary: position)
     (auto simp: spanTypes_def matchTypes_def split: if_splits)

lemma tokenizeLine_types: "t \<in> set (tokenizeLine line) \<Longrightarrow> s_type t \<in> set spanTypes"
  unfolding tokenizeLine_def
  using createTokens_types [of "filteredMatches line" t line 0] filteredMatches_valid by blast

lemma tokenizeLines_types: "t \<in> set (tokenizeLines ls) \<Longrightarrow> s_type t \<in> set spanTypes"
  by (induction ls rule: tokenizeLines.induct)
     (auto simp: spanTypes_def dest: tokenizeLine_types)

lemma createTokensMinimal_types:
  "\<forall>m \<in> set ms. m_type m \<in> set matchTypes \<Longrightarrow>
   t \<in> set (createTokensMinimal themeData line position linePosition ms) \<Longrightarrow>
   \<exists>ty. t_scopes t = [ty] \<and> ty \<in> set spanTypes"
  by (induction ms arbitrary: linePosition)
     (auto simp: spanTypes_def matchTypes_def textToken_def split: if_splits)

lemma minimalLine_types:
  "t \<in> set (minimalLine themeData position line) \<Longrightarrow> \<exists>ty. t_scopes t = [ty] \<and> ty \<in> set spanTypes"
  unfolding minimalLine_def
  using createTokensMinimal_types [of "filteredMatchesMinimal line" t themeData line position 0]
    filteredMatchesMinimal_valid by blast

lemma minimalLines_types:
  "t \<in> set (minimalLines themeData position ls) \<Longrightarrow> \<exists>ty. t_scopes t = [ty] \<and> ty \<in> set spanTypes"
proof (induction themeData position ls rule: minimalLines.induct)
  case (1 themeData position)
  then show ?case by simp
next
  case (2 themeData position line)
  then show ?case using minimalLine_types by simp
next
  case (3 themeData position line v va)
  then show ?case
    using minimalLine_types [of t themeData position line]
    by (auto simp: textToken_def spanTypes_def)
qed

lemma createMinimalHighlighting_types:
  "t \<in> set (tc_tokens (createMinimalHighlighting code language themeData)) \<Longrightarrow>
   \<exists>ty. t_scopes t = [ty] \<and> ty \<in> set spanTypes"
  using minimalLines_types [of t themeData 0 "split_newline code"]
  by (auto simp: createMinimalHighlighting_def Let_def textToken_def spanTypes_def
           split: if_splits)

text \<open>
  Claim C10. For every input string and language hint, every span of \<^verbatim>\<open>tokenizeCode\<close>
  has one of the five types text, comment, string, number and keyword, and every token of
  \<^verbatim>\<open>createMinimalHighlighting\<close> has exactly one scope, which is one of these five; none
  of the other declared types is produced.
\<close>

theorem C10_span_types:
  "(\<forall>t \<in> set (tokenizeCode code language).
      s_type t \<in> set spanTypes \<and> s_type t \<notin> set otherTypes) \<and>
   (\<forall>t \<in> set (tc_tokens (createMinimalHighlighting code language themeData)).
      \<exists>ty. t_scopes t = [ty] \<and> ty \<in> set spanTypes \<and> ty \<notin> set otherTypes)"
proof -
  have disj: "ty \<notin> set otherTypes" if "ty \<in> set spanTypes" for ty
    using that by (auto simp: spanTypes_def otherTypes_def)
  show ?thesis
    using tokenizeLines_types createMinimalHighlighting_types disj
    unfolding tokenizeCode_def by blast
qed

text \<open>The first end-to-end scenario of the specification, evaluated.\<close>

lemma example_const: "tokenizeCode ''const x = 1; // comment'' ''javascript'' =
     [\<lparr>s_text = ''const'', s_type = ''keyword''\<rparr>, \<lparr>s_text = '' x = '', s_type = ''text''\<rparr>,
      \<lparr>s_text = ''1'', s_type = ''number''\<rparr>, \<lparr>s_text = ''; '', s_type = ''text''\<rparr>,
      \<lparr>s_text = ''// comment'', s_type = ''comment''\<rparr>]"
  by code_simp

lemma example_const_minimal:
  "createMinimalHighlighting ''const x = 1; // comment'' ''javascript'' fallbackTheme =
     \<lparr>tc_language = JString ''javascript'',
      tc_tokens =
        [\<lparr>t_text = ''const'', t_scopes = [''keyword''], t_startIndex = 0, t_endIndex = 5,
           t_color = ''#569cd6''\<rparr>,
         \<lparr>t_text = '' x = '', t_scopes = [''text''], t_startIndex = 5, t_endIndex = 10,
           t_color = ''#d4d4d4''\<rparr>,
         \<lparr>t_text = ''1'', t_scopes = [''number''], t_startIndex = 10, t_endIndex = 11,
           t_color = ''#b5cea8''\<rparr>,
         \<lparr>t_text = ''; '', t_scopes = [''text''], t_startIndex = 11, t_endIndex = 13,
           t_color = ''#d4d4d4''\<rparr>,
         \<lparr>t_text = ''// comment'', t_scopes = [''comment''], t_startIndex = 13, t_endIndex = 23,
           t_color = ''#6a9955''\<rparr>]\<rparr>"
  by code_simp

theorem C10_span_types_witness:
  "\<lparr>s_text = ''const'', s_type = ''keyword''\<rparr>
     \<in> set (tokenizeCode ''const x = 1; // comment'' ''javascript'') \<and>
   \<lparr>t_text = ''// comment'', t_scopes = [''comment''], t_startIndex = 13, t_endIndex = 23,
     t_color = ''#6a9955''\<rparr>
     \<in> set (tc_tokens (createMinimalHighlighting ''const x = 1; // comment'' ''javascript''
                fallbackTheme)) \<and>
   ''keyword'' \<in> set spanTypes \<and> ''keyword'' \<notin> set otherTypes \<and>
   ''comment'' \<in> set spanTypes \<and> ''comment'' \<notin> set otherTypes"
  using C10_span_types [of "''const x = 1; // comment''" "''javascript''" fallbackTheme]
  by (simp add: example_const example_const_minimal)

section \<open>Spans are never empty, except for the empty input\<close>

lemma substring_nonempty: "a < b \<Longrightarrow> b \<le> length s \<Longrightarrow> substring s a b \<noteq> []"
  by (simp add: substring_take_drop)

lemma createTokens_texts_nonempty:
  "chain position ms \<Longrightarrow> \<forall>m \<in> set ms. m_end m \<le> length line \<Longrightarrow>
   t \<in> set (createTokens line position ms) \<Longrightarrow> s_text t \<noteq> []"
proof (induction ms arbitrary: position)
  case Nil
  then show ?case by (auto simp: substringFrom_def split: if_splits)
next
  case (Cons m ms)
  from Cons.prems have le: "position \<le> m_start m" "m_start m < m_end m" "m_end m \<le> length line"
    and ch: "chain (m_end m) ms" by auto
  from Cons.prems(3) consider
      (gap) "position < m_start m" "t = \<lparr>s_text = substring line position (m_start m), s_type = ''text''\<rparr>"
    | (tok) "t = \<lparr>s_text = substring line (m_start m) (m_end m), s_type = m_type m\<rparr>"
    | (rest) "t \<in> set (createTokens line (m_end m) ms)"
    by (auto split: if_splits)
  then show ?case
  proof cases
    case gap
    then show ?thesis using le by (simp add: substring_nonempty)
  next
    case tok
    then show ?thesis using le by (simp add: substring_nonempty)
  next
    case rest
    then show ?thesis using Cons.IH [OF ch] Cons.prems(2) by simp
  qed
qed

lemma tokenizeLine_texts_nonempty: "t \<in> set (tokenizeLine line) \<Longrightarrow> s_text t \<noteq> []"
proof -
  assume t: "t \<in> set (tokenizeLine line)"
  have v: "\<forall>m \<in> set (filteredMatches line). m_end m \<le> length line"
    using filteredMatches_valid by (simp add: validMatch_def)
  from createTokens_texts_nonempty [OF filteredMatches_chain v] t
  show ?thesis by (simp add: tokenizeLine_def)
qed

lemma tokenizeLines_texts_nonempty: "t \<in> set (tokenizeLines ls) \<Longrightarrow> s_text t \<noteq> []"
  by (induction ls rule: tokenizeLines.induct) (auto dest: tokenizeLine_texts_nonempty)

lemma minimalLine_texts_nonempty:
  "t \<in> set (minimalLine themeData position line) \<Longrightarrow> t_text t \<noteq> []"
proof -
  assume "t \<in> set (minimalLine themeData position line)"
  then have "t_text t \<in> set (map t_text (createTokensMinimal themeData line position 0
                                           (filteredMatchesMinimal line)))"
    by (simp add: minimalLine_def)
  then have "t_text t \<in> set (map s_text (createTokens line 0 (filteredMatchesMinimal line)))"
    by (simp only: createTokensMinimal_texts)
  then obtain u where u: "u \<in> set (createTokens line 0 (filteredMatchesMinimal line))"
    and eq: "s_text u = t_text t"
    by auto
  have v: "\<forall>m \<in> set (filteredMatchesMinimal line). m_end m \<le> length line"
    using filteredMatchesMinimal_valid by (simp add: validMatch_def)
  from createTokens_texts_nonempty [OF filteredMatchesMinimal_chain v u] eq
  show ?thesis by simp
qed

lemma minimalLines_texts_nonempty:
  "t \<in> set (minimalLines themeData position ls) \<Longrightarrow> t_text t \<noteq> []"
  by (induction themeData position ls rule: minimalLines.induct)
     (auto simp: textToken_def dest: minimalLine_texts_nonempty)

lemma split_newline_single: "CHR 0x0A \<notin> set code \<Longrightarrow> split_newline code = [code]"
  by (induction code) auto

lemma filteredMatches_empty_line: "filteredMatches [] = []"
  by code_simp

lemma filteredMatchesMinimal_empty_line: "filteredMatchesMinimal [] = []"
  by code_simp

lemma tokenizeCode_nonempty: "code \<noteq> [] \<Longrightarrow> tokenizeCode code language \<noteq> []"
  using tokenizeCode_roundtrip [of code language] by auto

lemma tokenizeCode_texts_nonempty: "t \<in> set (tokenizeCode code language) \<Longrightarrow> s_text t \<noteq> []"
  using tokenizeLines_texts_nonempty by (simp add: tokenizeCode_def)

lemma createMinimalHighlighting_texts_nonempty:
  assumes "code \<noteq> []" "t \<in> set (tc_tokens (createMinimalHighlighting code language themeData))"
  shows "t_text t \<noteq> []"
proof -
  have "concat (map t_text (minimalLines themeData 0 (split_newline code))) = code"
    by (simp add: minimalLines_roundtrip join_split_newline)
  with assms(1) have "minimalLines themeData 0 (split_newline code) \<noteq> []" by auto
  with assms(2) have "t \<in> set (minimalLines themeData 0 (split_newline code))"
    by (simp add: createMinimalHighlighting_def Let_def)
  then show ?thesis by (rule minimalLines_texts_nonempty)
qed

lemma createMinimalHighlighting_nonempty:
  "tc_tokens (createMinimalHighlighting code language themeData) \<noteq> []"
  by (simp add: createMinimalHighlighting_def Let_def)

lemma tokenizeCode_single_span:
  "code \<noteq> [] \<Longrightarrow> CHR 0x0A \<notin> set code \<Longrightarrow> filteredMatches code = [] \<Longrightarrow>
   tokenizeCode code language = [\<lparr>s_text = code, s_type = ''text''\<rparr>]"
  by (simp add: tokenizeCode_def split_newline_single tokenizeLine_def substringFrom_def)

lemma createMinimalHighlighting_single_span:
  "CHR 0x0A \<notin> set code \<Longrightarrow> filteredMatchesMinimal code = [] \<Longrightarrow>
   tc_tokens (createMinimalHighlighting code language themeData)
     = [textToken themeData code 0 (length code)]"
  by (simp add: createMinimalHighlighting_def Let_def split_newline_single minimalLine_def
                substringFrom_def)

lemma tokenizeCode_empty: "tokenizeCode [] language = []"
  by (simp add: tokenizeCode_def tokenizeLine_def filteredMatches_empty_line)

lemma createMinimalHighlighting_empty:
  "tc_tokens (createMinimalHighlighting [] language themeData) = [textToken themeData [] 0 0]"
  by (simp add: createMinimalHighlighting_def Let_def minimalLine_def
                filteredMatchesMinimal_empty_line)

text \<open>
  Claim C7, as amended. For every non-empty input, neither tokenizer emits a zero-length
  span, and \<^verbatim>\<open>tokenizeCode\<close> returns a non-empty list; \<^verbatim>\<open>createMinimalHighlighting\<close>
  never returns an empty list; the concatenation of the texts is the input. An input of
  one non-empty line in which the filter keeps no match comes back as a single text span
  covering it. For the empty input \<^verbatim>\<open>tokenizeCode\<close> returns the empty list and
  \<^verbatim>\<open>createMinimalHighlighting\<close> returns one text token of length zero.
\<close>

theorem C7_no_empty_spans:
  "(code \<noteq> [] \<longrightarrow>
      tokenizeCode code language \<noteq> [] \<and>
      (\<forall>t \<in> set (tokenizeCode code language). s_text t \<noteq> []) \<and>
      (\<forall>t \<in> set (tc_tokens (createMinimalHighlighting code language themeData)). t_text t \<noteq> [])) \<and>
   tc_tokens (createMinimalHighlighting code language themeData) \<noteq> [] \<and>
   concat (map s_text (tokenizeCode code language)) = code \<and>
   concat (map t_text (tc_tokens (createMinimalHighlighting code language themeData))) = code \<and>
   (code \<noteq> [] \<and> CHR 0x0A \<notin> set code \<and> filteredMatches code = [] \<longrightarrow>
      tokenizeCode code language = [\<lparr>s_text = code, s_type = ''text''\<rparr>]) \<and>
   (CHR 0x0A \<notin> set code \<and> filteredMatchesMinimal code = [] \<longrightarrow>
      tc_tokens (createMinimalHighlighting code language themeData)
        = [textToken themeData code 0 (length code)]) \<and>
   tokenizeCode [] language = [] \<and>
   tc_tokens (createMinimalHighlighting [] language themeData) = [textToken themeData [] 0 0]"
  by (intro conjI impI ballI)
     (simp_all add: tokenizeCode_nonempty tokenizeCode_texts_nonempty
        createMinimalHighlighting_texts_nonempty createMinimalHighlighting_nonempty
        tokenizeCode_roundtrip createMinimalHighlighting_roundtrip tokenizeCode_single_span
        createMinimalHighlighting_single_span tokenizeCode_empty createMinimalHighlighting_empty)

text \<open>
  The claim as stated fails at the empty input: \<^verbatim>\<open>tokenizeCode\<close> returns an empty
  list, and the one token of \<^verbatim>\<open>createMinimalHighlighting\<close> has length zero.
\<close>

theorem C7_no_empty_spans_counterexample:
  "tokenizeCode [] ''javascript'' = [] \<and>
   map t_text (tc_tokens (createMinimalHighlighting [] ''javascript'' fallbackTheme)) = [[]]"
  by (simp add: tokenizeCode_empty createMinimalHighlighting_empty textToken_def)

lemma filteredMatches_blank: "filteredMatches ''  '' = []"
  by code_simp

lemma filteredMatchesMinimal_blank: "filteredMatchesMinimal ''  '' = []"
  by code_simp

theorem C7_no_empty_spans_witness:
  "''  '' \<noteq> [] \<and> CHR 0x0A \<notin> set ''  '' \<and>
   filteredMatches ''  '' = [] \<and> filteredMatchesMinimal ''  '' = [] \<and>
   tokenizeCode ''  '' ''javascript'' = [\<lparr>s_text = ''  '', s_type = ''text''\<rparr>] \<and>
   \<lparr>s_text = ''  '', s_type = ''text''\<rparr> \<in> set (tokenizeCode ''  '' ''javascript'') \<and>
   s_text \<lparr>s_text = ''  '', s_type = ''text''\<rparr> \<noteq> [] \<and>
   tc_tokens (createMinimalHighlighting ''  '' ''javascript'' fallbackTheme)
     = [textToken fallbackTheme ''  '' 0 2] \<and>
   t_text (textToken fallbackTheme ''  '' 0 2) \<noteq> []"
  using C7_no_empty_spans [of "''  ''" "''javascript''" fallbackTheme]
  by (simp add: filteredMatches_blank filteredMatchesMinimal_blank textToken_def)

section \<open>Precedence of the earlier match\<close>

lemma chain_starts: "chain p ms \<Longrightarrow> k \<in> set ms \<Longrightarrow> p \<le> m_start k"
proof (induction ms arbitrary: p)
  case Nil
  then show ?case by simp
next
  case (Cons m ms)
  show ?case
  proof (cases "k = m")
    case True
    with Cons.prems show ?thesis by simp
  next
    case False
    with Cons.prems have "k \<in> set ms" "chain (m_end m) ms" by auto
    then have "m_end m \<le> m_start k" using Cons.IH by blast
    with Cons.prems show ?thesis by simp
  qed
qed

lemma chain_no_overlap:
  "chain p ms \<Longrightarrow> m \<in> set ms \<Longrightarrow> k \<in> set ms \<Longrightarrow> m_start m < m_start k \<Longrightarrow>
   m_end m \<le> m_start k"
proof (induction ms arbitrary: p)
  case Nil
  then show ?case by simp
next
  case (Cons x xs)
  from Cons.prems(1) have x: "m_start x < m_end x" and ch: "chain (m_end x) xs" by simp_all
  show ?case
  proof (cases "m = x")
    case True
    with Cons.prems have "k \<in> set xs" by auto
    with chain_starts [OF ch] True show ?thesis by simp
  next
    case False
    with Cons.prems have m: "m \<in> set xs" by simp
    show ?thesis
    proof (cases "k = x")
      case True
      from chain_starts [OF ch m] x True Cons.prems(4) show ?thesis by simp
    next
      case False
      with Cons.prems have "k \<in> set xs" by simp
      with Cons.IH [OF ch m] Cons.prems(4) show ?thesis by simp
    qed
  qed
qed

text \<open>
  Claim C6, as amended. In the conflict resolution of a line, a match that the overlap
  filter keeps suppresses every candidate that starts inside it: a keyword-shaped
  substring inside an earlier-starting string or comment match that is kept is never a
  kept match, so it is not emitted as a keyword span. This holds for the filter of
  \<^verbatim>\<open>tokenizeCode\<close> and for that of \<^verbatim>\<open>createMinimalHighlighting\<close>.
\<close>

theorem C6_kept_match_suppresses:
  "(m \<in> set (filteredMatches line) \<and> m_start m < m_start k \<and> m_start k < m_end m
      \<longrightarrow> k \<notin> set (filteredMatches line)) \<and>
   (m \<in> set (filteredMatchesMinimal line) \<and> m_start m < m_start k \<and> m_start k < m_end m
      \<longrightarrow> k \<notin> set (filteredMatchesMinimal line))"
  using chain_no_overlap [OF filteredMatches_chain, of m line k]
    chain_no_overlap [OF filteredMatchesMinimal_chain, of m line k]
  by auto

text \<open>
  The scenario of the specification: the keyword candidate \<^verbatim>\<open>return\<close> at 8 to 14 is
  found, the string at 7 to 15 is kept, and the candidate is dropped.
\<close>

lemma scenario_findMatches:
  "findMatches ''use of 'return' word inside a string literal'' =
     [\<lparr>m_start = 7, m_end = 15, m_type = ''string''\<rparr>,
      \<lparr>m_start = 8, m_end = 14, m_type = ''keyword''\<rparr>]"
  by code_simp

lemma scenario_filteredMatches:
  "filteredMatches ''use of 'return' word inside a string literal'' =
     [\<lparr>m_start = 7, m_end = 15, m_type = ''string''\<rparr>]"
  by code_simp

lemma scenario_tokenizeCode:
  "tokenizeCode ''use of 'return' word inside a string literal'' ''javascript'' =
     [\<lparr>s_text = ''use of '', s_type = ''text''\<rparr>,
      \<lparr>s_text = CHR 0x27 # ''return'' @ [CHR 0x27], s_type = ''string''\<rparr>,
      \<lparr>s_text = '' word inside a string literal'', s_type = ''text''\<rparr>]"
  by code_simp

lemma scenario_filteredMatchesMinimal:
  "filteredMatchesMinimal ''use of 'return' word inside a string literal'' =
     [\<lparr>m_start = 7, m_end = 15, m_type = ''string''\<rparr>,
      \<lparr>m_start = 30, m_end = 36, m_type = ''keyword''\<rparr>]"
  by code_simp

theorem C6_kept_match_suppresses_witness:
  "\<lparr>m_start = 8, m_end = 14, m_type = ''keyword''\<rparr>
     \<in> set (findMatches ''use of 'return' word inside a string literal'') \<and>
   \<lparr>m_start = 7, m_end = 15, m_type = ''string''\<rparr>
     \<in> set (filteredMatches ''use of 'return' word inside a string literal'') \<and>
   \<lparr>m_start = 8, m_end = 14, m_type = ''keyword''\<rparr>
     \<notin> set (filteredMatches ''use of 'return' word inside a string literal'') \<and>
   \<lparr>m_start = 7, m_end = 15, m_type = ''string''\<rparr>
     \<in> set (filteredMatchesMinimal ''use of 'return' word inside a string literal'') \<and>
   \<lparr>m_start = 8, m_end = 14, m_type = ''keyword''\<rparr>
     \<notin> set (filteredMatchesMinimal ''use of 'return' word inside a string literal'')"
  using C6_kept_match_suppresses
          [of "\<lparr>m_start = 7, m_end = 15, m_type = ''string''\<rparr>"
              "''use of 'return' word inside a string literal''"
              "\<lparr>m_start = 8, m_end = 14, m_type = ''keyword''\<rparr>"]
  by (simp add: scenario_findMatches scenario_filteredMatches scenario_filteredMatchesMinimal)

text \<open>
  The claim as stated fails where the earlier-starting string match is itself dropped: in
  the line below the comment at 0 to 8 is kept, the string candidate at 3 to 17 starts
  inside it and is dropped, and \<^verbatim>\<open>return\<close> at 9 to 15, inside that string candidate,
  is emitted as a keyword.
\<close>

theorem C6_kept_match_suppresses_counterexample:
  "\<lparr>m_start = 3, m_end = 17, m_type = ''string''\<rparr> \<in> set (findMatches ''/* 'a */ return ' '') \<and>
   \<lparr>m_start = 9, m_end = 15, m_type = ''keyword''\<rparr> \<in> set (filteredMatches ''/* 'a */ return ' '') \<and>
   tokenizeCode ''/* 'a */ return ' '' ''javascript'' =
     [\<lparr>s_text = ''/* 'a */'', s_type = ''comment''\<rparr>, \<lparr>s_text = '' '', s_type = ''text''\<rparr>,
      \<lparr>s_text = ''return'', s_type = ''keyword''\<rparr>, \<lparr>s_text = '' ' '', s_type = ''text''\<rparr>]"
  by code_simp

section \<open>Colors of token types\<close>

lemma typeMapping_values:
  "typeMapping tokenType = Some key \<Longrightarrow> key \<noteq> []"
  by (auto simp: typeMapping_def split: if_splits)

lemma typeMap_identity: "typeMap tokenType = Some key \<Longrightarrow> key = tokenType \<and> key \<noteq> []"
  by (auto simp: typeMap_def split: if_splits)

lemma getColorForTokenType_own:
  assumes "tokenType \<notin> set objectPrototype"
  shows "getColorForTokenType tokenType themeData
           = orElse (colors themeData (paletteKey tokenType)) (foreground themeData)"
proof (cases "typeMapping tokenType")
  case None
  then show ?thesis
    using assms
    by (simp add: getColorForTokenType_def getProperty_def orValue_def paletteKey_def
                  toPropertyKey_def)
next
  case (Some key)
  then show ?thesis
    using typeMapping_values [OF Some]
    by (simp add: getColorForTokenType_def getProperty_def orValue_def truthy_def paletteKey_def
                  toPropertyKey_def)
qed

lemma previewColorForTokenType_own:
  assumes "tokenType \<notin> set objectPrototype"
  shows "previewColorForTokenType (Some themeData) tokenType
     = (if tokenType \<in> set [''comment'', ''string'', ''keyword'', ''number'', ''function'', ''class'',
                             ''variable'', ''constant'', ''operator'', ''type'', ''punctuation'',
                             ''regexp'']
        then colors themeData tokenType else None)"
proof (cases "typeMap tokenType")
  case None
  then have "tokenType \<notin> set [''comment'', ''string'', ''keyword'', ''number'', ''function'',
                                 ''class'', ''variable'', ''constant'', ''operator'', ''type'',
                                 ''punctuation'', ''regexp'']"
    by (auto simp: typeMap_def split: if_splits)
  then show ?thesis
    using None assms by (simp add: previewColorForTokenType_def getProperty_def)
next
  case (Some key)
  then have m: "tokenType \<in> set [''comment'', ''string'', ''keyword'', ''number'', ''function'',
                                 ''class'', ''variable'', ''constant'', ''operator'', ''type'',
                                 ''punctuation'', ''regexp'']"
    by (auto simp: typeMap_def split: if_splits)
  from typeMap_identity [OF Some] have key: "key = tokenType" "tokenType \<noteq> []"
    by blast+
  have "previewColorForTokenType (Some themeData) tokenType = colors themeData tokenType"
    using Some key
    by (simp add: previewColorForTokenType_def getProperty_def truthy_def toPropertyKey_def)
  with m show ?thesis
    by (simp only: if_True)
qed

text \<open>
  The keys with which the two colorizers read the palette are never names of
  \<^verbatim>\<open>Object.prototype\<close>.
\<close>

lemma palette_keys_not_inherited:
  "toPropertyKey (orValue (getProperty typeMapping tokenType) (JString ''variable''))
     \<notin> set objectPrototype"
  "getProperty typeMap tokenType = Some mappedType \<Longrightarrow>
     toPropertyKey mappedType \<notin> set objectPrototype"
proof -
  have inherited: "toPropertyKey (JInherited key) \<notin> set objectPrototype" for key
    by (simp add: toPropertyKey_def objectPrototype_def)
  show "toPropertyKey (orValue (getProperty typeMapping tokenType) (JString ''variable''))
          \<notin> set objectPrototype"
  proof (cases "typeMapping tokenType")
    case None
    then show ?thesis
      using inherited [of tokenType]
      by (simp add: getProperty_def orValue_def truthy_def)
         (simp add: toPropertyKey_def objectPrototype_def)
  next
    case (Some key)
    then have "key \<in> set [''comment'', ''string'', ''keyword'', ''number'', ''function'', ''class'',
                           ''type'', ''variable'', ''parameter'', ''property'', ''constant'',
                           ''operator'', ''punctuation'', ''regexp'']"
      by (auto simp: typeMapping_def split: if_splits)
    then have "key \<notin> set objectPrototype" "key \<noteq> []"
      by (auto simp: objectPrototype_def)
    then show ?thesis
      using Some
      by (simp add: getProperty_def orValue_def truthy_def toPropertyKey_def)
  qed
  show "toPropertyKey mappedType \<notin> set objectPrototype"
    if "getProperty typeMap tokenType = Some mappedType"
  proof (cases "typeMap tokenType")
    case None
    then show ?thesis
      using that inherited [of tokenType] by (auto simp: getProperty_def split: if_splits)
  next
    case (Some key)
    then have "key \<in> set [''comment'', ''string'', ''keyword'', ''number'', ''function'', ''class'',
                           ''variable'', ''constant'', ''operator'', ''type'', ''punctuation'',
                           ''regexp'']"
      by (auto simp: typeMap_def split: if_splits)
    then have "key \<notin> set objectPrototype"
      by (auto simp: objectPrototype_def)
    then show ?thesis
      using Some that by (auto simp: getProperty_def toPropertyKey_def)
  qed
qed

text \<open>
  Claim C8, as amended. For every token type that is not the name of a member of
  \<^verbatim>\<open>Object.prototype\<close>, the colorizer of the tokenization service maps the type through
  its table (method, event and macro to the key of function; interface, enum, struct,
  namespace and typeParameter to the key of type; modifier to the key of keyword;
  enumMember to the key of constant), every type outside the table to the key of
  variable, and returns the palette's color for that key, or the theme's foreground when
  the palette has none (or an empty one): it always returns a color. The colorizer of the
  preview script has a table of twelve types mapped to themselves and no default: for
  every other such type, text and method among them, and without a theme, it returns no
  color.
\<close>

theorem C8_colorizer:
  "(tokenType \<notin> set objectPrototype \<longrightarrow>
      getColorForTokenType tokenType themeData
        = orElse (colors themeData (paletteKey tokenType)) (foreground themeData)) \<and>
   map paletteKey [''comment'', ''string'', ''keyword'', ''number'', ''function'', ''class'',
                   ''type'', ''variable'', ''parameter'', ''property'', ''constant'',
                   ''operator'', ''punctuation'', ''regexp'']
     = [''comment'', ''string'', ''keyword'', ''number'', ''function'', ''class'', ''type'',
        ''variable'', ''parameter'', ''property'', ''constant'', ''operator'', ''punctuation'',
        ''regexp''] \<and>
   map paletteKey [''method'', ''event'', ''macro''] = [''function'', ''function'', ''function''] \<and>
   map paletteKey [''interface'', ''enum'', ''struct'', ''namespace'', ''typeParameter'']
     = [''type'', ''type'', ''type'', ''type'', ''type''] \<and>
   paletteKey ''modifier'' = ''keyword'' \<and> paletteKey ''enumMember'' = ''constant'' \<and>
   (typeMapping tokenType = None \<longrightarrow> paletteKey tokenType = ''variable'') \<and>
   (tokenType \<notin> set objectPrototype \<and> colors themeData (paletteKey tokenType) = None \<longrightarrow>
      getColorForTokenType tokenType themeData = foreground themeData) \<and>
   (tokenType \<notin> set objectPrototype \<and> colors themeData (paletteKey tokenType) = Some c \<and>
    c \<noteq> [] \<longrightarrow>
      getColorForTokenType tokenType themeData = c) \<and>
   previewColorForTokenType None tokenType = None \<and>
   (tokenType \<notin> set objectPrototype \<longrightarrow>
      previewColorForTokenType (Some themeData) tokenType
        = (if tokenType \<in> set [''comment'', ''string'', ''keyword'', ''number'', ''function'',
                                ''class'', ''variable'', ''constant'', ''operator'', ''type'',
                                ''punctuation'', ''regexp'']
           then colors themeData tokenType else None))"
proof -
  have b: "map paletteKey [''comment'', ''string'', ''keyword'', ''number'', ''function'', ''class'',
                   ''type'', ''variable'', ''parameter'', ''property'', ''constant'',
                   ''operator'', ''punctuation'', ''regexp'']
     = [''comment'', ''string'', ''keyword'', ''number'', ''function'', ''class'', ''type'',
        ''variable'', ''parameter'', ''property'', ''constant'', ''operator'', ''punctuation'',
        ''regexp'']"
    "map paletteKey [''method'', ''event'', ''macro''] = [''function'', ''function'', ''function'']"
    "map paletteKey [''interface'', ''enum'', ''struct'', ''namespace'', ''typeParameter'']
       = [''type'', ''type'', ''type'', ''type'', ''type'']"
    "paletteKey ''modifier'' = ''keyword''" "paletteKey ''enumMember'' = ''constant''"
    by (simp_all add: paletteKey_def typeMapping_def)
  have d: "typeMapping tokenType = None \<longrightarrow> paletteKey tokenType = ''variable''"
    by (simp add: paletteKey_def)
  have e: "previewColorForTokenType None tokenType = None"
    by (simp add: previewColorForTokenType_def)
  show ?thesis
    using b d e getColorForTokenType_own [of tokenType themeData]
      previewColorForTokenType_own [of tokenType themeData]
    by (simp add: orElse_def)
qed

theorem C8_colorizer_witness:
  "''unknown'' \<notin> set objectPrototype \<and>
   typeMapping ''unknown'' = None \<and> paletteKey ''unknown'' = ''variable'' \<and>
   colors fallbackTheme (paletteKey ''unknown'') = Some ''#9cdcfe'' \<and> ''#9cdcfe'' \<noteq> [] \<and>
   getColorForTokenType ''unknown'' fallbackTheme = ''#9cdcfe'' \<and>
   colors (fallbackTheme\<lparr>colors := Map.empty\<rparr>) (paletteKey ''unknown'') = None \<and>
   getColorForTokenType ''unknown'' (fallbackTheme\<lparr>colors := Map.empty\<rparr>) = ''#d4d4d4'' \<and>
   ''method'' \<notin> set objectPrototype \<and>
   getColorForTokenType ''method'' fallbackTheme = ''#dcdcaa'' \<and>
   colors fallbackTheme ''function'' = Some ''#dcdcaa'' \<and>
   previewColorForTokenType (Some fallbackTheme) ''method'' = None \<and>
   previewColorForTokenType (Some fallbackTheme) ''keyword'' = Some ''#569cd6''"
  using C8_colorizer [of "''unknown''" fallbackTheme "''#9cdcfe''"]
    C8_colorizer [of "''unknown''" "fallbackTheme\<lparr>colors := Map.empty\<rparr>"]
    C8_colorizer [of "''method''" fallbackTheme "''#dcdcaa''"]
    C8_colorizer [of "''keyword''" fallbackTheme]
  by (simp add: paletteKey_def orElse_def typeMapping_def fallbackTheme_def objectPrototype_def
                extractTokenColorsFromTheme_def)

text \<open>
  The claim as stated fails for the colorizer of the preview script: with the built-in
  dark palette, which has a color for function and for variable, the types method and
  text get no color.
\<close>

theorem C8_colorizer_counterexample:
  "previewColorForTokenType (Some fallbackTheme) ''method'' = None \<and>
   previewColorForTokenType (Some fallbackTheme) ''text'' = None \<and>
   colors fallbackTheme ''function'' = Some ''#dcdcaa'' \<and>
   colors fallbackTheme ''variable'' = Some ''#9cdcfe''"
  by (simp add: previewColorForTokenType_def getProperty_def typeMap_def objectPrototype_def
                fallbackTheme_def extractTokenColorsFromTheme_def)

text \<open>
  Where the token type is the name of a member of \<^verbatim>\<open>Object.prototype\<close>, the table of
  the service yields that member, which is truthy: the default \<^verbatim>\<open>variable\<close> is skipped,
  the palette is read with the rendering of the member, and the color is the theme's
  foreground unless the palette has a color under that rendering. With the built-in dark
  palette the type \<^verbatim>\<open>constructor\<close> gets the foreground, not the color of variable.
\<close>

lemma inherited_not_in_tables:
  "\<forall>key \<in> set objectPrototype. typeMapping key = None \<and> typeMap key = None \<and> aliases key = None"
  by (simp add: objectPrototype_def typeMapping_def typeMap_def aliases_def)

lemma inherited_type_skips_default:
  assumes "tokenType \<in> set objectPrototype"
  shows "getColorForTokenType tokenType themeData
           = orElse (colors themeData (toPropertyKey (JInherited tokenType)))
                    (foreground themeData)"
proof -
  have "typeMapping tokenType = None"
    using assms inherited_not_in_tables by blast
  then have "getProperty typeMapping tokenType = Some (JInherited tokenType)"
    using assms by (simp add: getProperty_def)
  then show ?thesis
    by (simp add: getColorForTokenType_def orValue_def truthy_def)
qed

lemma constructor_gets_foreground:
  "getColorForTokenType ''constructor'' fallbackTheme = ''#d4d4d4'' \<and>
   getColorForTokenType ''toString'' fallbackTheme = ''#d4d4d4'' \<and>
   getColorForTokenType ''__proto__'' fallbackTheme = ''#d4d4d4'' \<and>
   getColorForTokenType ''hasOwnProperty'' fallbackTheme = ''#d4d4d4'' \<and>
   colors fallbackTheme ''variable'' = Some ''#9cdcfe'' \<and>
   foreground fallbackTheme = ''#d4d4d4''"
  by code_simp

section \<open>The public tokenize operation\<close>

lemma tokenize_small:
  "\<not> isLargeBlock code maxBlockSize \<Longrightarrow>
   tokenize race code language themeData maxBlockSize timeout =
     (case race code language themeData timeout of
        Inr tokenized \<Rightarrow> tokenized
      | Inl error \<Rightarrow> createMinimalHighlighting code language themeData)"
  by (simp add: tokenize_def tokenizeWithTimeout_def split: sum.splits)

lemma tokenize_large:
  "isLargeBlock code maxBlockSize \<Longrightarrow>
   tokenize race code language themeData maxBlockSize timeout =
     \<lparr>tc_language = normalizeLanguage language,
      tc_tokens = streamChunks race language themeData timeout (split_newline code) 0 0\<rparr>"
  by (simp add: tokenize_def tokenizeWithStreaming_def)

text \<open>
  The chunk loop, chunk by chunk: it ends at the first index beyond the lines, and from
  the start of the \<open>k\<close>-th chunk it yields the tokens of the chunks from \<open>k\<close> on, those of
  each chunk shifted to the start of the chunk.
\<close>

lemma streamChunks_done:
  "length lines \<le> i \<Longrightarrow> streamChunks race language themeData timeout lines i p = []"
  by (subst streamChunks.simps) simp

lemma chunkCount_le: "chunkCount lines \<le> k \<longleftrightarrow> length lines \<le> 500 * k"
  unfolding chunkCount_def by linarith

lemma chunkStart_Suc:
  "chunkStart lines (Suc k) = chunkStart lines k + length (chunkAt lines k) + 1"
  by (simp add: chunkStart_def)

lemma streamChunks_chunks:
  "streamChunks race language themeData timeout lines (500 * k) (chunkStart lines k) =
     concat (map (\<lambda>j. map (shiftToken (chunkStart lines j))
                    (case race (chunkAt lines j) language themeData (timeout / 10) of
                       Inr tokenized \<Rightarrow> tc_tokens tokenized
                     | Inl error \<Rightarrow>
                         tc_tokens (createMinimalHighlighting (chunkAt lines j) language
                                      themeData)))
               [k ..< chunkCount lines])"
proof -
  define F where "F j = map (shiftToken (chunkStart lines j))
                    (case race (chunkAt lines j) language themeData (timeout / 10) of
                       Inr tokenized \<Rightarrow> tc_tokens tokenized
                     | Inl error \<Rightarrow>
                         tc_tokens (createMinimalHighlighting (chunkAt lines j) language
                                      themeData))" for j
  have "streamChunks race language themeData timeout lines (500 * k) (chunkStart lines k)
          = concat (map F [k ..< chunkCount lines])"
  proof (induction "chunkCount lines - k" arbitrary: k)
    case 0
    then have "chunkCount lines \<le> k"
      by simp
    then show ?case
      by (simp add: streamChunks_done chunkCount_le)
  next
    case (Suc n)
    then have k: "k < chunkCount lines" and n: "n = chunkCount lines - Suc k"
      by simp_all
    from k have i: "500 * k < length lines"
      using chunkCount_le [of lines k] by simp
    have upt: "[k ..< chunkCount lines] = k # [Suc k ..< chunkCount lines]"
      using k by (simp add: upt_conv_Cons)
    have chunk: "join_newline (take 500 (drop (500 * k) lines)) = chunkAt lines k"
      by (simp add: chunkAt_def)
    have step: "streamChunks race language themeData timeout lines (500 * k) (chunkStart lines k)
                = F k @ streamChunks race language themeData timeout lines (500 * k + 500)
                          (chunkStart lines k + length (chunkAt lines k)
                           + (if 500 * k + 500 < length lines then 1 else 0))"
      by (subst streamChunks.simps)
         (simp only: i if_True STREAMING_CHUNK_SIZE_def Let_def chunk tokenizeWithTimeout_def
                     F_def,
          simp split: sum.splits)
    have rest: "streamChunks race language themeData timeout lines (500 * k + 500)
                  (chunkStart lines k + length (chunkAt lines k)
                   + (if 500 * k + 500 < length lines then 1 else 0))
                = streamChunks race language themeData timeout lines (500 * Suc k)
                    (chunkStart lines (Suc k))"
    proof (cases "500 * k + 500 < length lines")
      case True
      then show ?thesis by (simp add: chunkStart_Suc add.commute)
    next
      case False
      then show ?thesis by (simp add: streamChunks_done)
    qed
    show ?case
      by (simp only: step rest Suc.hyps(1) [OF n] upt list.map concat.simps)
  qed
  moreover have "F = (\<lambda>j. map (shiftToken (chunkStart lines j))
                    (case race (chunkAt lines j) language themeData (timeout / 10) of
                       Inr tokenized \<Rightarrow> tc_tokens tokenized
                     | Inl error \<Rightarrow>
                         tc_tokens (createMinimalHighlighting (chunkAt lines j) language
                                      themeData)))"
    by (rule ext) (rule F_def)
  ultimately show ?thesis
    by (simp only:)
qed

lemma aliases_values: "aliases name = Some target \<Longrightarrow> target \<noteq> []"
  by (auto simp: aliases_def split: if_splits)

lemma normalizeLanguage_own:
  assumes "toLowerCase language \<notin> set objectPrototype"
  shows "normalizeLanguage language =
           JString (case aliases (toLowerCase language) of
                      Some target \<Rightarrow> target
                    | None \<Rightarrow> toLowerCase language)"
proof (cases "aliases (toLowerCase language)")
  case None
  then show ?thesis
    using assms by (simp add: normalizeLanguage_def getProperty_def orValue_def)
next
  case (Some target)
  then show ?thesis
    using aliases_values [OF Some]
    by (simp add: normalizeLanguage_def getProperty_def orValue_def truthy_def)
qed

text \<open>
  Claim C9, as amended. \<^verbatim>\<open>tokenize\<close> always resolves to a tokenized result. For every
  code that does not exceed the maximum block size, every language and every theme, the
  result is that of the internal tokenization when it resolves in time, and
  \<^verbatim>\<open>createMinimalHighlighting\<close> of the same code, language and theme when it throws or
  the timer fires first. A larger code goes through the streaming path instead: its lines
  are cut into chunks of 500, each chunk is tokenized on its own with a tenth of the
  timeout, a chunk that fails is highlighted minimally on its own, and the tokens of each
  chunk are shifted to the start of the chunk; the result carries the alias of the
  lower-cased language, or the lower-cased language itself, where that name is not the
  name of a member of \<^verbatim>\<open>Object.prototype\<close>.
\<close>

theorem C9_tokenize_fallback:
  "(int (length code) \<le> maxBlockSize \<and> race code language themeData timeout = Inl error \<longrightarrow>
      tokenize race code language themeData maxBlockSize timeout
        = createMinimalHighlighting code language themeData) \<and>
   (int (length code) \<le> maxBlockSize \<and> race code language themeData timeout = Inr tokenized \<longrightarrow>
      tokenize race code language themeData maxBlockSize timeout = tokenized) \<and>
   (maxBlockSize < int (length code) \<longrightarrow>
      tc_tokens (tokenize race code language themeData maxBlockSize timeout) =
        concat (map (\<lambda>k. map (\<lambda>token.
                         token\<lparr>t_startIndex := t_startIndex token
                                                 + chunkStart (split_newline code) k,
                               t_endIndex := t_endIndex token
                                               + chunkStart (split_newline code) k\<rparr>)
                       (case race (chunkAt (split_newline code) k) language themeData
                               (timeout / 10) of
                          Inr chunkResult \<Rightarrow> tc_tokens chunkResult
                        | Inl chunkError \<Rightarrow>
                            tc_tokens (createMinimalHighlighting (chunkAt (split_newline code) k)
                                         language themeData)))
                  [0 ..< chunkCount (split_newline code)]) \<and>
      (toLowerCase language \<notin> set objectPrototype \<longrightarrow>
         tc_language (tokenize race code language themeData maxBlockSize timeout) =
           JString (case aliases (toLowerCase language) of
                      Some target \<Rightarrow> target
                    | None \<Rightarrow> toLowerCase language)))"
proof -
  have small: "int (length code) \<le> maxBlockSize \<Longrightarrow> \<not> isLargeBlock code maxBlockSize"
    and large: "maxBlockSize < int (length code) \<Longrightarrow> isLargeBlock code maxBlockSize"
    by (simp_all add: isLargeBlock_def)
  have start: "chunkStart (split_newline code) 0 = 0"
    by (simp add: chunkStart_def)
  have shift: "shiftToken p = (\<lambda>token. token\<lparr>t_startIndex := t_startIndex token + p,
                                               t_endIndex := t_endIndex token + p\<rparr>)" for p
    by (rule ext) (simp add: shiftToken_def)
  have tokens: "streamChunks race language themeData timeout (split_newline code) 0 0 =
        concat (map (\<lambda>k. map (\<lambda>token.
                         token\<lparr>t_startIndex := t_startIndex token
                                                 + chunkStart (split_newline code) k,
                               t_endIndex := t_endIndex token
                                               + chunkStart (split_newline code) k\<rparr>)
                       (case race (chunkAt (split_newline code) k) language themeData
                               (timeout / 10) of
                          Inr chunkResult \<Rightarrow> tc_tokens chunkResult
                        | Inl chunkError \<Rightarrow>
                            tc_tokens (createMinimalHighlighting (chunkAt (split_newline code) k)
                                         language themeData)))
                  [0 ..< chunkCount (split_newline code)])"
    using streamChunks_chunks [of race language themeData timeout "split_newline code" 0]
    unfolding shift by (simp add: start)
  show ?thesis
    using small large tokens normalizeLanguage_own [of language]
    by (auto simp: tokenize_small tokenize_large)
qed

theorem C9_tokenize_fallback_witness:
  "int (length ''const x = 1; // comment'') \<le> 10000 \<and>
   tokenize (\<lambda>c l t to. Inl TimedOut) ''const x = 1; // comment'' ''javascript'' fallbackTheme
       10000 5000
     = createMinimalHighlighting ''const x = 1; // comment'' ''javascript'' fallbackTheme \<and>
   tokenize (\<lambda>c l t to. Inr \<lparr>tc_language = JString l, tc_tokens = []\<rparr>)
       ''const x = 1; // comment'' ''javascript'' fallbackTheme 10000 5000
     = \<lparr>tc_language = JString ''javascript'', tc_tokens = []\<rparr> \<and>
   100 < int (length (replicate 500 (CHR 0x0A) @ ''x'')) \<and>
   toLowerCase ''JS'' \<notin> set objectPrototype \<and>
   tokenize (\<lambda>c l t to.
               if c = ''x''
               then Inr \<lparr>tc_language = JString ''javascript'',
                         tc_tokens = [\<lparr>t_text = ''x'', t_scopes = [''variable''],
                                       t_startIndex = 0, t_endIndex = 1,
                                       t_color = ''#9cdcfe''\<rparr>]\<rparr>
               else Inl TimedOut)
       (replicate 500 (CHR 0x0A) @ ''x'') ''JS'' fallbackTheme 100 5000
     = \<lparr>tc_language = JString ''javascript'',
        tc_tokens = map (\<lambda>i. textToken fallbackTheme [CHR 0x0A] i (Suc i)) [0..<499]
                    @ [\<lparr>t_text = ''x'', t_scopes = [''variable''], t_startIndex = 500,
                         t_endIndex = 501, t_color = ''#9cdcfe''\<rparr>]\<rparr>"
proof -
  define race :: race where
    "race = (\<lambda>c l t to.
               if c = ''x''
               then Inr \<lparr>tc_language = JString ''javascript'',
                         tc_tokens = [\<lparr>t_text = ''x'', t_scopes = [''variable''],
                                       t_startIndex = 0, t_endIndex = 1,
                                       t_color = ''#9cdcfe''\<rparr>]\<rparr>
               else Inl TimedOut)"
  define code where "code = replicate 500 (CHR 0x0A) @ ''x''"
  have small: "int (length ''const x = 1; // comment'') \<le> 10000"
    by simp
  have large: "100 < int (length code)"
    by (simp add: code_def)
  have lower: "toLowerCase ''JS'' \<notin> set objectPrototype"
    by code_simp
  have name: "(case aliases (toLowerCase ''JS'') of Some target \<Rightarrow> target
               | None \<Rightarrow> toLowerCase ''JS'') = ''javascript''"
    by code_simp
  have a: "tokenize (\<lambda>c l t to. Inl TimedOut) ''const x = 1; // comment'' ''javascript''
             fallbackTheme 10000 5000
           = createMinimalHighlighting ''const x = 1; // comment'' ''javascript'' fallbackTheme"
    using C9_tokenize_fallback
            [of "''const x = 1; // comment''" 10000 "\<lambda>c l t to. Inl TimedOut" "''javascript''"
                fallbackTheme 5000 TimedOut] small
    by simp
  have b: "tokenize (\<lambda>c l t to. Inr \<lparr>tc_language = JString l, tc_tokens = []\<rparr>)
             ''const x = 1; // comment'' ''javascript'' fallbackTheme 10000 5000
           = \<lparr>tc_language = JString ''javascript'', tc_tokens = []\<rparr>"
    using C9_tokenize_fallback
            [of "''const x = 1; // comment''" 10000
                "\<lambda>c l t to. Inr \<lparr>tc_language = JString l, tc_tokens = []\<rparr>" "''javascript''"
                fallbackTheme 5000 _ "\<lparr>tc_language = JString ''javascript'', tc_tokens = []\<rparr>"]
      small
    by simp
  have chunks: "concat (map (\<lambda>k. map (\<lambda>token.
                         token\<lparr>t_startIndex := t_startIndex token
                                                 + chunkStart (split_newline code) k,
                               t_endIndex := t_endIndex token
                                               + chunkStart (split_newline code) k\<rparr>)
                       (case race (chunkAt (split_newline code) k) ''JS'' fallbackTheme
                               (5000 / 10) of
                          Inr chunkResult \<Rightarrow> tc_tokens chunkResult
                        | Inl chunkError \<Rightarrow>
                            tc_tokens (createMinimalHighlighting (chunkAt (split_newline code) k)
                                         ''JS'' fallbackTheme)))
                  [0 ..< chunkCount (split_newline code)])
      = map (\<lambda>i. textToken fallbackTheme [CHR 0x0A] i (Suc i)) [0..<499]
        @ [\<lparr>t_text = ''x'', t_scopes = [''variable''], t_startIndex = 500,
             t_endIndex = 501, t_color = ''#9cdcfe''\<rparr>]"
    unfolding race_def code_def by code_simp
  from C9_tokenize_fallback [of code 100 race "''JS''" fallbackTheme 5000] large lower
  have "tc_tokens (tokenize race code ''JS'' fallbackTheme 100 5000) =
          concat (map (\<lambda>k. map (\<lambda>token.
                         token\<lparr>t_startIndex := t_startIndex token
                                                 + chunkStart (split_newline code) k,
                               t_endIndex := t_endIndex token
                                               + chunkStart (split_newline code) k\<rparr>)
                       (case race (chunkAt (split_newline code) k) ''JS'' fallbackTheme
                               (5000 / 10) of
                          Inr chunkResult \<Rightarrow> tc_tokens chunkResult
                        | Inl chunkError \<Rightarrow>
                            tc_tokens (createMinimalHighlighting (chunkAt (split_newline code) k)
                                         ''JS'' fallbackTheme)))
                  [0 ..< chunkCount (split_newline code)])"
    and "tc_language (tokenize race code ''JS'' fallbackTheme 100 5000) =
           JString (case aliases (toLowerCase ''JS'') of Some target \<Rightarrow> target
                    | None \<Rightarrow> toLowerCase ''JS'')"
    by blast+
  then have "tc_tokens (tokenize race code ''JS'' fallbackTheme 100 5000)
      = map (\<lambda>i. textToken fallbackTheme [CHR 0x0A] i (Suc i)) [0..<499]
        @ [\<lparr>t_text = ''x'', t_scopes = [''variable''], t_startIndex = 500,
             t_endIndex = 501, t_color = ''#9cdcfe''\<rparr>]"
    and "tc_language (tokenize race code ''JS'' fallbackTheme 100 5000) = JString ''javascript''"
    by (simp_all only: chunks name)
  then have c: "tokenize race code ''JS'' fallbackTheme 100 5000
     = \<lparr>tc_language = JString ''javascript'',
        tc_tokens = map (\<lambda>i. textToken fallbackTheme [CHR 0x0A] i (Suc i)) [0..<499]
                    @ [\<lparr>t_text = ''x'', t_scopes = [''variable''], t_startIndex = 500,
                         t_endIndex = 501, t_color = ''#9cdcfe''\<rparr>]\<rparr>"
    by (cases "tokenize race code ''JS'' fallbackTheme 100 5000") simp
  from small a b large lower c show ?thesis
    unfolding race_def code_def by blast
qed

text \<open>
  The claim as stated fails for a code above the maximum block size: under the default
  limit of 10000 characters, a line of 10001 characters in the language \<^verbatim>\<open>JS\<close> comes
  back with the language \<^verbatim>\<open>javascript\<close>, which is not the language of
  \<^verbatim>\<open>createMinimalHighlighting\<close> of the same arguments.
\<close>

theorem C9_tokenize_fallback_counterexample:
  "tokenize (\<lambda>c l t to. Inl TimedOut) (replicate 10001 (CHR ''x'')) ''JS'' fallbackTheme 10000 5000
     \<noteq> createMinimalHighlighting (replicate 10001 (CHR ''x'')) ''JS'' fallbackTheme"
proof -
  have "isLargeBlock (replicate 10001 (CHR ''x'')) 10000"
    by (simp add: isLargeBlock_def)
  then have "tc_language (tokenize (\<lambda>c l t to. Inl TimedOut) (replicate 10001 (CHR ''x'')) ''JS''
                fallbackTheme 10000 5000) = normalizeLanguage ''JS''"
    by (simp add: tokenize_large)
  moreover have "normalizeLanguage ''JS'' = JString ''javascript''"
    by code_simp
  moreover have "tc_language (createMinimalHighlighting (replicate 10001 (CHR ''x'')) ''JS''
                   fallbackTheme) = JString ''JS''"
    by (simp add: createMinimalHighlighting_def Let_def)
  ultimately show ?thesis by auto
qed

text \<open>
  Where the lower-cased language is the name of a member of \<^verbatim>\<open>Object.prototype\<close>, the
  table of aliases yields that member, and the result of the streaming path carries it
  in place of a language name.
\<close>

lemma inherited_language:
  "normalizeLanguage ''Constructor'' = JInherited ''constructor'' \<and>
   normalizeLanguage ''__proto__'' = JInherited ''__proto__'' \<and>
   normalizeLanguage ''toString'' = JString ''tostring'' \<and>
   tc_language (tokenize (\<lambda>c l t to. Inl TimedOut) ''const x = 1; // comment'' ''constructor''
                  fallbackTheme 10 5000) = JInherited ''constructor''"
proof -
  have "isLargeBlock ''const x = 1; // comment'' 10"
    by (simp add: isLargeBlock_def)
  then have "tc_language (tokenize (\<lambda>c l t to. Inl TimedOut) ''const x = 1; // comment''
                ''constructor'' fallbackTheme 10 5000) = normalizeLanguage ''constructor''"
    by (simp add: tokenize_large)
  moreover have "normalizeLanguage ''constructor'' = JInherited ''constructor''"
    "normalizeLanguage ''Constructor'' = JInherited ''constructor''"
    "normalizeLanguage ''__proto__'' = JInherited ''__proto__''"
    "normalizeLanguage ''toString'' = JString ''tostring''"
    by code_simp+
  ultimately show ?thesis by simp
qed

section \<open>The streaming path\<close>

lemma join_newline_append:
  "xs \<noteq> [] \<Longrightarrow> ys \<noteq> [] \<Longrightarrow> join_newline (xs @ ys) = join_newline xs @ CHR 0x0A # join_newline ys"
proof (induction xs rule: join_newline.induct)
  case 1
  then show ?case by simp
next
  case (2 l)
  then show ?case by (cases ys) simp_all
next
  case (3 l v va)
  then show ?case by simp
qed

lemma shiftToken_text: "t_text (shiftToken p t) = t_text t"
  by (simp add: shiftToken_def)

lemma tokenizeWithTimeout_roundtrip:
  assumes "roundTrips race language themeData timeout"
  obtains tokenized where
    "tokenizeWithTimeout race chunk language themeData timeout = Inr tokenized"
    "concat (map t_text (tc_tokens tokenized)) = chunk"
proof (cases "race chunk language themeData timeout")
  case (Inl e)
  then show ?thesis
    using that createMinimalHighlighting_roundtrip
    by (simp add: tokenizeWithTimeout_def)
next
  case (Inr r)
  then show ?thesis
    using that assms by (simp add: tokenizeWithTimeout_def roundTrips_def)
qed

lemma streamChunks_length:
  "roundTrips race language themeData (timeout / 10) \<Longrightarrow> i < length lines \<Longrightarrow>
    length (concat (map t_text (streamChunks race language themeData timeout lines i currentPosition)))
      + (length lines - i - 1) div STREAMING_CHUNK_SIZE
    = length (join_newline (drop i lines))"
proof (induction race language themeData timeout lines i currentPosition
       rule: streamChunks.induct)
  case (1 race language themeData timeout lines i currentPosition)
  note rt = "1.prems"(1) and il = "1.prems"(2)
  define chunk where "chunk = join_newline (take STREAMING_CHUNK_SIZE (drop i lines))"
  obtain tokenized where
    tw: "tokenizeWithTimeout race chunk language themeData (timeout / 10) = Inr tokenized"
    and tx: "concat (map t_text (tc_tokens tokenized)) = chunk"
    using tokenizeWithTimeout_roundtrip [OF rt] by blast
  define next_position where
    "next_position = currentPosition + length chunk
                     + (if i + STREAMING_CHUNK_SIZE < length lines then 1 else 0)"
  have unfold: "streamChunks race language themeData timeout lines i currentPosition
      = map (shiftToken currentPosition) (tc_tokens tokenized)
        @ streamChunks race language themeData timeout lines (i + STREAMING_CHUNK_SIZE) next_position"
    using il tw
    by (subst streamChunks.simps) (simp add: chunk_def next_position_def Let_def)
  have texts: "concat (map t_text (map (shiftToken currentPosition) (tc_tokens tokenized))) = chunk"
    using tx by (simp add: comp_def shiftToken_text)
  show ?case
  proof (cases "i + STREAMING_CHUNK_SIZE < length lines")
    case True
    have ih: "length (concat (map t_text (streamChunks race language themeData timeout lines
                 (i + STREAMING_CHUNK_SIZE) next_position)))
              + (length lines - (i + STREAMING_CHUNK_SIZE) - 1) div STREAMING_CHUNK_SIZE
              = length (join_newline (drop (i + STREAMING_CHUNK_SIZE) lines))"
      using "1.IH"(2) [OF il chunk_def tw rt True] True
      by (simp add: next_position_def)
    have split: "drop i lines = take STREAMING_CHUNK_SIZE (drop i lines)
                   @ drop (i + STREAMING_CHUNK_SIZE) lines"
      by (metis append_take_drop_id drop_drop add.commute)
    have ne1: "take STREAMING_CHUNK_SIZE (drop i lines) \<noteq> []"
      using il by (simp add: STREAMING_CHUNK_SIZE_def)
    have ne2: "drop (i + STREAMING_CHUNK_SIZE) lines \<noteq> []"
      using True by simp
    have "join_newline (drop i lines)
            = chunk @ CHR 0x0A # join_newline (drop (i + STREAMING_CHUNK_SIZE) lines)"
      using join_newline_append [OF ne1 ne2] split by (simp add: chunk_def)
    then have len: "length (join_newline (drop i lines))
            = length chunk + 1 + length (join_newline (drop (i + STREAMING_CHUNK_SIZE) lines))"
      by simp
    have d: "(length lines - i - 1) div STREAMING_CHUNK_SIZE
             = 1 + (length lines - (i + STREAMING_CHUNK_SIZE) - 1) div STREAMING_CHUNK_SIZE"
      using True by (simp add: STREAMING_CHUNK_SIZE_def)
    show ?thesis
      using ih len d texts by (simp add: unfold)
  next
    case False
    then have last: "streamChunks race language themeData timeout lines
                       (i + STREAMING_CHUNK_SIZE) next_position = []"
      by (subst streamChunks.simps) simp
    have "take STREAMING_CHUNK_SIZE (drop i lines) = drop i lines"
      using False by simp
    then have c: "chunk = join_newline (drop i lines)" by (simp add: chunk_def)
    have d: "(length lines - i - 1) div STREAMING_CHUNK_SIZE = 0"
      using False il by (simp add: STREAMING_CHUNK_SIZE_def)
    show ?thesis
      using last c d texts by (simp add: unfold)
  qed
qed

text \<open>
  With more than one chunk, the line feed between two chunks is counted in
  \<^verbatim>\<open>currentPosition\<close> and never emitted as a token: the texts of the result are
  shorter than the code by one character for every chunk after the first.
\<close>

lemma streaming_length:
  assumes "roundTrips race language themeData (timeout / 10)" "isLargeBlock code maxBlockSize"
  shows "length (concat (map t_text (tc_tokens
            (tokenize race code language themeData maxBlockSize timeout))))
         + (length (split_newline code) - 1) div STREAMING_CHUNK_SIZE
         = length code"
proof -
  have "0 < length (split_newline code)"
    using split_newline_nonempty by simp
  from streamChunks_length [OF assms(1) this, of 0]
  show ?thesis
    using assms(2) by (simp add: tokenize_large join_split_newline)
qed

text \<open>
  Claim C2 fails on the code. For every code above the maximum block size with more than
  500 lines, and every outcome of the per-chunk races whose resolved tokens spell their
  chunk, the texts of the tokens of the streaming path, concatenated, are not the code.
\<close>

theorem C2_streaming_loses_line_feeds:
  "roundTrips race language themeData (timeout / 10) \<Longrightarrow> isLargeBlock code maxBlockSize \<Longrightarrow>
   STREAMING_CHUNK_SIZE < length (split_newline code) \<Longrightarrow>
   concat (map t_text (tc_tokens (tokenize race code language themeData maxBlockSize timeout)))
     \<noteq> code"
proof -
  assume a: "roundTrips race language themeData (timeout / 10)" "isLargeBlock code maxBlockSize"
    and b: "STREAMING_CHUNK_SIZE < length (split_newline code)"
  from b have "0 < (length (split_newline code) - 1) div STREAMING_CHUNK_SIZE"
    by (simp add: STREAMING_CHUNK_SIZE_def div_greater_zero_iff)
  with streaming_length [OF a] show ?thesis by auto
qed

lemma split_newline_replicate:
  "split_newline (replicate n (CHR 0x0A)) = replicate (Suc n) []"
  by (induction n) simp_all

lemma roundTrips_failing: "roundTrips (\<lambda>c l t to. Inl e) language themeData timeout"
  by (simp add: roundTrips_def)

theorem C2_streaming_loses_line_feeds_witness:
  "roundTrips (\<lambda>c l t to. Inl TimedOut) ''javascript'' fallbackTheme (5000 / 10) \<and>
   isLargeBlock (replicate 500 (CHR 0x0A)) 100 \<and>
   STREAMING_CHUNK_SIZE < length (split_newline (replicate 500 (CHR 0x0A))) \<and>
   concat (map t_text (tc_tokens (tokenize (\<lambda>c l t to. Inl TimedOut) (replicate 500 (CHR 0x0A))
      ''javascript'' fallbackTheme 100 5000))) \<noteq> replicate 500 (CHR 0x0A)"
proof -
  have a: "roundTrips (\<lambda>c l t to. Inl TimedOut) ''javascript'' fallbackTheme (5000 / 10)"
    by (rule roundTrips_failing)
  have b: "isLargeBlock (replicate 500 (CHR 0x0A)) 100"
    by (simp add: isLargeBlock_def)
  have c: "STREAMING_CHUNK_SIZE < length (split_newline (replicate 500 (CHR 0x0A)))"
    by (simp add: split_newline_replicate STREAMING_CHUNK_SIZE_def)
  from C2_streaming_loses_line_feeds [OF a b c] a b c show ?thesis by simp
qed

section \<open>Properties of the cache\<close>

text \<open>
  With every key in the access order non-empty, the cache behaves as a least recently
  used cache: a hit and a replacement move the key to the end of the access order and
  leave the set of keys alone, and an insertion into a full cache removes exactly the
  head of the access order.
\<close>

lemma length_delete_distinct:
  "distinct (map fst al) \<Longrightarrow> k \<in> fst ` set al \<Longrightarrow>
   length (AList.delete k al) = length al - 1"
proof (induction al)
  case Nil
  then show ?case by simp
next
  case (Cons a al)
  show ?case
  proof (cases "fst a = k")
    case True
    with Cons.prems have "k \<notin> fst ` set al" by auto
    then have "AList.delete k al = al"
      by (simp add: delete_id)
    with True show ?thesis by (cases a) simp
  next
    case False
    with Cons.prems have "k \<in> fst ` set al" "distinct (map fst al)" by auto
    with Cons.IH have "length (AList.delete k al) = length al - 1" by simp
    moreover from \<open>k \<in> fst ` set al\<close> have "0 < length al" by auto
    ultimately show ?thesis using False by (cases a) simp
  qed
qed

lemma length_update:
  "length (AList.update k v al) = (if k \<in> fst ` set al then length al else Suc (length al))"
  using arg_cong [OF update_keys [of k v al], of length] by (simp split: if_splits)

lemma cacheHas_iff: "cacheHas key c \<longleftrightarrow> key \<in> fst ` set (cache c)"
  by (simp add: cacheHas_def map_of_eq_None_iff)

lemma newCacheManager_invariant: "cacheInvariant (newCacheManager n)"
  by (simp add: cacheInvariant_def newCacheManager_def)

lemma cacheSet_existing:
  assumes "cacheInvariant c" "cacheHas key c"
  shows "cacheSize (cacheSet now key v c) = cacheSize c"
    and "fst ` set (cache (cacheSet now key v c)) = fst ` set (cache c)"
    and "accessOrder (cacheSet now key v c) = filter (\<lambda>k. k \<noteq> key) (accessOrder c) @ [key]"
    and "cacheInvariant (cacheSet now key v c)"
    and "map_option e_value (map_of (cache (cacheSet now key v c)) key) = Some v"
proof -
  from assms(2) obtain entry where e: "map_of (cache c) key = Some entry"
    by (auto simp: cacheHas_def)
  then have k: "key \<in> fst ` set (cache c)"
    by (force dest!: map_of_SomeD simp: image_iff)
  have s: "cacheSet now key v c
           = updateAccessOrder key
               (c\<lparr>cache := AList.update key (entry\<lparr>e_value := v, e_timestamp := now\<rparr>) (cache c)\<rparr>)"
    using e by (simp add: cacheSet_def)
  show "cacheSize (cacheSet now key v c) = cacheSize c"
    using k by (simp add: s cacheSize_def updateAccessOrder_def length_update)
  show d: "fst ` set (cache (cacheSet now key v c)) = fst ` set (cache c)"
    using k by (auto simp: s updateAccessOrder_def dom_update)
  show "accessOrder (cacheSet now key v c) = filter (\<lambda>k. k \<noteq> key) (accessOrder c) @ [key]"
    by (simp add: s updateAccessOrder_def)
  show "cacheInvariant (cacheSet now key v c)"
    using assms(1) k
    by (auto simp: s cacheInvariant_def updateAccessOrder_def distinct_update dom_update)
  show "map_option e_value (map_of (cache (cacheSet now key v c)) key) = Some v"
    by (simp add: s updateAccessOrder_def update_conv')
qed

lemma cacheGet_hit:
  assumes "cacheInvariant c" "cacheHas key c"
  shows "fst (cacheGet now key c) = map_option e_value (map_of (cache c) key)"
    and "fst ` set (cache (snd (cacheGet now key c))) = fst ` set (cache c)"
    and "accessOrder (snd (cacheGet now key c)) = filter (\<lambda>k. k \<noteq> key) (accessOrder c) @ [key]"
    and "cacheInvariant (snd (cacheGet now key c))"
    and "maxSize (snd (cacheGet now key c)) = maxSize c"
proof -
  from assms(2) obtain entry where e: "map_of (cache c) key = Some entry"
    by (auto simp: cacheHas_def)
  then have k: "key \<in> fst ` set (cache c)"
    by (force dest!: map_of_SomeD simp: image_iff)
  show "fst (cacheGet now key c) = map_option e_value (map_of (cache c) key)"
    using e by (simp add: cacheGet_def)
  show "fst ` set (cache (snd (cacheGet now key c))) = fst ` set (cache c)"
    using e k by (auto simp: cacheGet_def updateAccessOrder_def dom_update)
  show "accessOrder (snd (cacheGet now key c)) = filter (\<lambda>k. k \<noteq> key) (accessOrder c) @ [key]"
    using e by (simp add: cacheGet_def updateAccessOrder_def)
  show "cacheInvariant (snd (cacheGet now key c))"
    using assms(1) e k
    by (auto simp: cacheGet_def cacheInvariant_def updateAccessOrder_def distinct_update
                   dom_update)
  show "maxSize (snd (cacheGet now key c)) = maxSize c"
    using e by (simp add: cacheGet_def updateAccessOrder_def)
qed

lemma cacheSet_evicts_lru:
  assumes inv: "cacheInvariant c" and new: "\<not> cacheHas key c"
    and full: "maxSize c \<le> int (cacheSize c)" and order: "accessOrder c = lru # rest"
    and nonempty: "lru \<noteq> []"
  shows "fst ` set (cache (cacheSet now key v c)) = insert key (fst ` set (cache c) - {lru})"
    and "accessOrder (cacheSet now key v c) = rest @ [key]"
    and "cacheInvariant (cacheSet now key v c)"
    and "cacheSize (cacheSet now key v c) = cacheSize c"
proof -
  from new have n: "map_of (cache c) key = None" "key \<notin> fst ` set (cache c)"
    by (simp_all add: cacheHas_def map_of_eq_None_iff)
  define c' where "c' = c\<lparr>accessOrder := rest, cache := AList.delete lru (cache c)\<rparr>"
  have s: "cacheSet now key v c
           = c'\<lparr>cache := AList.update key \<lparr>e_key = key, e_value = v, e_timestamp = now\<rparr> (cache c'),
                accessOrder := accessOrder c' @ [key]\<rparr>"
    using n full order nonempty
    by (simp add: cacheSet_def cacheSize_def evictLeastRecentlyUsed_def c'_def Let_def)
  have lru: "lru \<in> fst ` set (cache c)" "lru \<notin> set rest" "lru \<noteq> key"
    using inv order n by (auto simp: cacheInvariant_def)
  have keys': "fst ` set (cache c') = fst ` set (cache c) - {lru}"
    by (auto simp: c'_def AList.delete_eq image_iff)
  have k': "key \<notin> fst ` set (cache c')" using n keys' by simp
  show a: "fst ` set (cache (cacheSet now key v c)) = insert key (fst ` set (cache c) - {lru})"
    using keys' by (simp add: s dom_update)
  show b: "accessOrder (cacheSet now key v c) = rest @ [key]"
    by (simp add: s c'_def)
  have drest: "distinct rest" "set rest = fst ` set (cache c) - {lru}"
    using inv order by (auto simp: cacheInvariant_def)
  have "distinct (map fst (cache c'))"
    using inv by (simp add: c'_def cacheInvariant_def distinct_delete)
  then have "distinct (map fst (cache (cacheSet now key v c)))"
    by (simp add: s distinct_update)
  then show "cacheInvariant (cacheSet now key v c)"
    using a b drest n by (auto simp: cacheInvariant_def)
  have "length (cache c') = length (cache c) - 1"
    using inv lru(1) by (simp add: c'_def cacheInvariant_def length_delete_distinct)
  moreover have "0 < length (cache c)"
    using lru(1) by auto
  ultimately show "cacheSize (cacheSet now key v c) = cacheSize c"
    using k' by (simp add: s cacheSize_def length_update)
qed

lemma cacheSet_then_get:
  "fst (cacheGet now' key (cacheSet now key v c)) = Some v"
  by (auto simp: cacheGet_def cacheSet_def updateAccessOrder_def Let_def update_conv'
           split: option.splits)

lemma cacheSet_nonempty:
  "0 < cacheSize (cacheSet now key v c)"
proof (cases "map_of (cache c) key")
  case None
  then show ?thesis
    by (auto simp: cacheSet_def cacheSize_def Let_def length_update)
next
  case (Some entry)
  then have "(key, entry) \<in> set (cache c)"
    by (rule map_of_SomeD)
  then have "0 < length (cache c)" by auto
  then show ?thesis
    using Some by (simp add: cacheSet_def cacheSize_def updateAccessOrder_def length_update)
qed

text \<open>
  Claim C3 says that a cache of capacity 0 is disabled: \<^verbatim>\<open>set\<close> is a no-op and \<^verbatim>\<open>get\<close>
  always misses. The test \<^verbatim>\<open>Should handle cache with size 0\<close> of the repository expects
  the same. The code does otherwise: for a cache manager with \<^verbatim>\<open>maxSize = 0\<close>, every key
  and every value, \<^verbatim>\<open>set(k, v)\<close> stores the entry (after evicting the least recently used
  one, if any), the cache is not empty afterwards, and \<^verbatim>\<open>get(k)\<close> immediately after it
  returns \<open>v\<close>.
\<close>

theorem C3_zero_capacity_stores:
  "maxSize c = 0 \<Longrightarrow>
   fst (cacheGet now' key (cacheSet now key v c)) = Some v \<and>
   cacheHas key (cacheSet now key v c) \<and>
   0 < cacheSize (cacheSet now key v c)"
  using cacheSet_nonempty [of now key v c]
  by (auto simp: cacheGet_def cacheSet_def cacheHas_def updateAccessOrder_def Let_def update_conv'
           split: option.splits)

text \<open>
  The input of the test: \<^verbatim>\<open>new CacheManager(0)\<close>, then \<^verbatim>\<open>set('key1', tokenizedCode)\<close>.
  The test expects size 0 and a miss; the size is 1 and \<^verbatim>\<open>get('key1')\<close> hits.
\<close>

theorem C3_zero_capacity_stores_witness:
  "maxSize (newCacheManager 0 :: TokenizedCode CacheManager) = 0 \<and>
   cacheSize (cacheSet 1 ''key1''
      \<lparr>tc_language = JString ''javascript'',
        tc_tokens = [\<lparr>t_text = ''test'', t_scopes = [''text''], t_startIndex = 0,
                      t_endIndex = 4, t_color = ''#fff''\<rparr>]\<rparr>
      (newCacheManager 0)) = 1 \<and>
   fst (cacheGet 2 ''key1''
          (cacheSet 1 ''key1''
             \<lparr>tc_language = JString ''javascript'',
               tc_tokens = [\<lparr>t_text = ''test'', t_scopes = [''text''], t_startIndex = 0,
                             t_endIndex = 4, t_color = ''#fff''\<rparr>]\<rparr>
             (newCacheManager 0)))
     = Some \<lparr>tc_language = JString ''javascript'',
              tc_tokens = [\<lparr>t_text = ''test'', t_scopes = [''text''], t_startIndex = 0,
                            t_endIndex = 4, t_color = ''#fff''\<rparr>]\<rparr>"
  using C3_zero_capacity_stores
          [of "newCacheManager 0 :: TokenizedCode CacheManager" 2 "''key1''" 1
              "\<lparr>tc_language = JString ''javascript'',
                tc_tokens = [\<lparr>t_text = ''test'', t_scopes = [''text''], t_startIndex = 0,
                              t_endIndex = 4, t_color = ''#fff''\<rparr>]\<rparr>"]
  by (simp add: newCacheManager_def cacheSize_def cacheSet_def evictLeastRecentlyUsed_def)

text \<open>
  The eviction is skipped where the least recently used key is the empty string: a cache
  of capacity 1 that holds the key \<^verbatim>\<open>""\<close> and receives a second key keeps both, its
  size exceeds its capacity, and the empty key has left the access order for good.
\<close>

lemma empty_key_not_evicted:
  "cacheHas [] (cacheSet 2 ''a'' (20::nat) (cacheSet 1 [] 10 (newCacheManager 1))) \<and>
   cacheHas ''a'' (cacheSet 2 ''a'' (20::nat) (cacheSet 1 [] 10 (newCacheManager 1))) \<and>
   cacheSize (cacheSet 2 ''a'' (20::nat) (cacheSet 1 [] 10 (newCacheManager 1))) = 2 \<and>
   maxSize (cacheSet 2 ''a'' (20::nat) (cacheSet 1 [] 10 (newCacheManager 1))) = 1 \<and>
   accessOrder (cacheSet 2 ''a'' (20::nat) (cacheSet 1 [] 10 (newCacheManager 1))) = [''a'']"
  by (simp add: cacheHas_def cacheSize_def cacheSet_def newCacheManager_def
                evictLeastRecentlyUsed_def updateAccessOrder_def)

section \<open>Least recently used eviction\<close>

lemma cacheSet_maxSize: "maxSize (cacheSet now key v c) = maxSize c"
  by (simp add: cacheSet_def updateAccessOrder_def evictLeastRecentlyUsed_def Let_def
           split: option.splits list.splits)

lemma cacheSet_not_full:
  assumes "\<not> cacheHas key c" "int (cacheSize c) < maxSize c"
  shows "map fst (cache (cacheSet now key v c)) = map fst (cache c) @ [key]"
    and "accessOrder (cacheSet now key v c) = accessOrder c @ [key]"
proof -
  from assms(1) have n: "map_of (cache c) key = None" "key \<notin> set (map fst (cache c))"
    by (simp_all add: cacheHas_def map_of_eq_None_iff)
  show "map fst (cache (cacheSet now key v c)) = map fst (cache c) @ [key]"
    using n assms(2) by (simp add: cacheSet_def cacheSize_def Let_def update_keys)
  show "accessOrder (cacheSet now key v c) = accessOrder c @ [key]"
    using n assms(2) by (simp add: cacheSet_def cacheSize_def Let_def)
qed

lemma insertKeys_fill:
  "distinct ks \<Longrightarrow> int (length ks) \<le> n \<Longrightarrow>
   map fst (cache (insertKeys now v (newCacheManager n) ks)) = ks \<and>
   accessOrder (insertKeys now v (newCacheManager n) ks) = ks \<and>
   maxSize (insertKeys now v (newCacheManager n) ks) = n"
proof (induction ks rule: rev_induct)
  case Nil
  then show ?case by (simp add: insertKeys_def newCacheManager_def)
next
  case (snoc k ks)
  define c where "c = insertKeys now v (newCacheManager n) ks"
  from snoc have ih: "map fst (cache c) = ks" "accessOrder c = ks" "maxSize c = n"
    by (simp_all add: c_def)
  from snoc.prems ih have new: "\<not> cacheHas k c"
    by (simp add: cacheHas_iff flip: set_map)
  have "length (cache c) = length ks"
    using arg_cong [OF ih(1), of length] by simp
  with snoc.prems ih have room: "int (cacheSize c) < maxSize c"
    by (simp add: cacheSize_def)
  have step: "insertKeys now v (newCacheManager n) (ks @ [k]) = cacheSet now k v c"
    by (simp add: insertKeys_def c_def)
  show ?case
    using cacheSet_not_full [OF new room] ih by (simp add: step cacheSet_maxSize)
qed

lemma insertKeys_invariant:
  assumes "distinct ks" "int (length ks) \<le> n"
  shows "cacheInvariant (insertKeys now v (newCacheManager n) ks)"
  using insertKeys_fill [OF assms, of now v] assms(1)
  by (simp add: cacheInvariant_def flip: set_map)

lemma insert_one_more:
  assumes d: "distinct (k # ks @ [k'])" and n: "int (length (k # ks)) = n" and k: "k \<noteq> []"
  shows "fst ` set (cache (insertKeys now v (newCacheManager n) (k # ks @ [k']))) = set (ks @ [k'])"
    and "accessOrder (insertKeys now v (newCacheManager n) (k # ks @ [k'])) = ks @ [k']"
    and "cacheSize (insertKeys now v (newCacheManager n) (k # ks @ [k'])) = length (k # ks)"
proof -
  define c where "c = insertKeys now v (newCacheManager n) (k # ks)"
  from d have dk: "distinct (k # ks)" by simp
  from n have le: "int (length (k # ks)) \<le> n" by simp
  have f: "map fst (cache c) = k # ks" "accessOrder c = k # ks" "maxSize c = n"
    using insertKeys_fill [OF dk le, of now v] by (simp_all add: c_def)
  have inv: "cacheInvariant c"
    using insertKeys_invariant [OF dk le] by (simp add: c_def)
  have keys: "fst ` set (cache c) = set (k # ks)"
    using f(1) by (metis set_map)
  have "length (cache c) = length (k # ks)"
    using arg_cong [OF f(1), of length] by simp
  then have size: "cacheSize c = length (k # ks)"
    by (simp add: cacheSize_def)
  have new: "\<not> cacheHas k' c"
    using d keys by (auto simp: cacheHas_iff)
  have full: "maxSize c \<le> int (cacheSize c)"
    using f(3) n size by simp
  have step: "insertKeys now v (newCacheManager n) (k # ks @ [k']) = cacheSet now k' v c"
    by (simp add: insertKeys_def c_def)
  note ev = cacheSet_evicts_lru [OF inv new full f(2) k]
  show "fst ` set (cache (insertKeys now v (newCacheManager n) (k # ks @ [k']))) = set (ks @ [k'])"
    using ev(1) keys d by (auto simp: step)
  show "accessOrder (insertKeys now v (newCacheManager n) (k # ks @ [k'])) = ks @ [k']"
    using ev(2) by (simp add: step)
  show "cacheSize (insertKeys now v (newCacheManager n) (k # ks @ [k'])) = length (k # ks)"
    using ev(4) size by (simp add: step)
qed

lemma cacheGet_protects:
  assumes inv: "cacheInvariant c" and key: "cacheHas key c" and other: "cacheHas other c"
    and ne: "other \<noteq> key"
  shows "cacheHas key (cacheSet now' new v (snd (cacheGet now key c)))"
proof -
  define c1 where "c1 = snd (cacheGet now key c)"
  note g = cacheGet_hit [OF inv key, of now]
  have k1: "cacheHas key c1"
    using g(2) key by (simp add: c1_def cacheHas_iff)
  from other inv have "other \<in> set (accessOrder c)"
    by (simp add: cacheHas_iff cacheInvariant_def)
  with ne have "filter (\<lambda>k. k \<noteq> key) (accessOrder c) \<noteq> []"
    by (auto simp: filter_empty_conv)
  then obtain h rest where hr: "filter (\<lambda>k. k \<noteq> key) (accessOrder c) = h # rest"
    by (cases "filter (\<lambda>k. k \<noteq> key) (accessOrder c)") auto
  then have "h \<in> set (filter (\<lambda>k. k \<noteq> key) (accessOrder c))" by simp
  then have hk: "h \<noteq> key" by simp
  have order: "accessOrder c1 = h # rest @ [key]"
    using g(3) hr by (simp add: c1_def)
  from k1 obtain entry where e: "map_of (cache c1) key = Some entry"
    by (auto simp: cacheHas_def)
  show ?thesis
  proof (cases "map_of (cache c1) new")
    case (Some e')
    then show ?thesis
      using e
      by (auto simp: cacheSet_def cacheHas_def updateAccessOrder_def update_conv' c1_def [symmetric])
  next
    case None
    with e have nk: "new \<noteq> key" by auto
    show ?thesis
      using None e order hk nk
      by (auto simp: cacheSet_def cacheHas_def evictLeastRecentlyUsed_def Let_def update_conv'
                     delete_conv' c1_def [symmetric])
  qed
qed

text \<open>
  Claim C5, as amended. In a cache whose access order lists its keys: \<^verbatim>\<open>get\<close> on a
  present key moves it to the most recently used end, and this protects it from the next
  eviction whenever the cache holds another key; \<^verbatim>\<open>set\<close> on a present key replaces the
  value, moves the key to the most recently used end and leaves the number of entries
  alone; \<^verbatim>\<open>set\<close> of a new key into a full cache whose least recently used key is not
  the empty string evicts exactly that key and no other; so inserting \<open>maxEntries + 1\<close>
  distinct keys, the first of them non-empty, into a new cache of capacity
  \<open>maxEntries \<ge> 1\<close> evicts exactly the first.
\<close>

theorem C5_lru:
  "cacheInvariant c \<Longrightarrow>
   (cacheHas key c \<longrightarrow>
      accessOrder (snd (cacheGet now key c)) = filter (\<lambda>k. k \<noteq> key) (accessOrder c) @ [key] \<and>
      (cacheHas other c \<and> other \<noteq> key \<longrightarrow>
         cacheHas key (cacheSet now' new v (snd (cacheGet now key c)))) \<and>
      cacheSize (cacheSet now key v c) = cacheSize c \<and>
      fst (cacheGet now' key (cacheSet now key v c)) = Some v \<and>
      accessOrder (cacheSet now key v c) = filter (\<lambda>k. k \<noteq> key) (accessOrder c) @ [key]) \<and>
   (\<not> cacheHas key c \<and> maxSize c \<le> int (cacheSize c) \<and> accessOrder c = lru # rest \<and> lru \<noteq> []
      \<longrightarrow>
      fst ` set (cache (cacheSet now key v c)) = insert key (fst ` set (cache c) - {lru}) \<and>
      accessOrder (cacheSet now key v c) = rest @ [key] \<and>
      cacheSize (cacheSet now key v c) = cacheSize c) \<and>
   (distinct (k # ks @ [k']) \<and> int (length (k # ks)) = n \<and> k \<noteq> [] \<longrightarrow>
      fst ` set (cache (insertKeys now v (newCacheManager n) (k # ks @ [k']))) = set (ks @ [k']) \<and>
      cacheSize (insertKeys now v (newCacheManager n) (k # ks @ [k'])) = length (k # ks))"
proof -
  assume inv: "cacheInvariant c"
  have a: "accessOrder (snd (cacheGet now key c)) = filter (\<lambda>k. k \<noteq> key) (accessOrder c) @ [key]"
    if "cacheHas key c"
    using cacheGet_hit(3) [OF inv that] .
  have b: "cacheHas key (cacheSet now' new v (snd (cacheGet now key c)))"
    if "cacheHas key c" "cacheHas other c" "other \<noteq> key"
    using cacheGet_protects [OF inv that] .
  have c: "cacheSize (cacheSet now key v c) = cacheSize c"
    "accessOrder (cacheSet now key v c) = filter (\<lambda>k. k \<noteq> key) (accessOrder c) @ [key]"
    if "cacheHas key c"
    using cacheSet_existing(1,3) [OF inv that] by simp_all
  have d: "fst ` set (cache (cacheSet now key v c)) = insert key (fst ` set (cache c) - {lru})"
    "accessOrder (cacheSet now key v c) = rest @ [key]"
    "cacheSize (cacheSet now key v c) = cacheSize c"
    if "\<not> cacheHas key c" "maxSize c \<le> int (cacheSize c)" "accessOrder c = lru # rest" "lru \<noteq> []"
    using cacheSet_evicts_lru(1,2,4) [OF inv that] by simp_all
  have e: "fst ` set (cache (insertKeys now v (newCacheManager n) (k # ks @ [k']))) = set (ks @ [k'])"
    "cacheSize (insertKeys now v (newCacheManager n) (k # ks @ [k'])) = length (k # ks)"
    if "distinct (k # ks @ [k'])" "int (length (k # ks)) = n" "k \<noteq> []"
    using insert_one_more(1,3) [OF that] by simp_all
  show ?thesis
    by (intro conjI impI; (elim conjE)?)
       (simp_all add: a b c d e cacheSet_then_get)
qed

lemma example_cache:
  "insertKeys 5 (10::nat) (newCacheManager 2) [''a'', ''b'']
     = \<lparr>cache = [(''a'', \<lparr>e_key = ''a'', e_value = 10, e_timestamp = 5\<rparr>),
                 (''b'', \<lparr>e_key = ''b'', e_value = 10, e_timestamp = 5\<rparr>)],
        maxSize = 2, accessOrder = [''a'', ''b'']\<rparr>"
  by (simp add: insertKeys_def cacheSet_def newCacheManager_def)

theorem C5_lru_witness:
  "cacheInvariant (insertKeys 5 (10::nat) (newCacheManager 2) [''a'', ''b'']) \<and>
   cacheHas ''a'' (insertKeys 5 (10::nat) (newCacheManager 2) [''a'', ''b'']) \<and>
   cacheHas ''b'' (insertKeys 5 (10::nat) (newCacheManager 2) [''a'', ''b'']) \<and>
   cacheHas ''a'' (cacheSet 7 ''c'' 30
      (snd (cacheGet 6 ''a'' (insertKeys 5 (10::nat) (newCacheManager 2) [''a'', ''b''])))) \<and>
   \<not> cacheHas ''c'' (insertKeys 5 (10::nat) (newCacheManager 2) [''a'', ''b'']) \<and>
   accessOrder (insertKeys 5 (10::nat) (newCacheManager 2) [''a'', ''b'']) = [''a'', ''b''] \<and>
   accessOrder (cacheSet 7 ''c'' 30 (insertKeys 5 (10::nat) (newCacheManager 2) [''a'', ''b'']))
     = [''b'', ''c''] \<and>
   distinct [''a'', ''b'', ''c''] \<and>
   fst ` set (cache (insertKeys 5 (10::nat) (newCacheManager 2) [''a'', ''b'', ''c''])) = {''b'', ''c''}"
proof -
  have inv: "cacheInvariant (insertKeys 5 (10::nat) (newCacheManager 2) [''a'', ''b''])"
    by (rule insertKeys_invariant) simp_all
  have has: "cacheHas ''a'' (insertKeys 5 (10::nat) (newCacheManager 2) [''a'', ''b''])"
    "cacheHas ''b'' (insertKeys 5 (10::nat) (newCacheManager 2) [''a'', ''b''])"
    by (simp_all add: example_cache cacheHas_def)
  have ne: "''b'' \<noteq> ''a''" by simp
  from C5_lru [OF inv, of "''a''" 6 "''b''" 7 "''c''" 30] has ne
  have p: "cacheHas ''a'' (cacheSet 7 ''c'' 30
      (snd (cacheGet 6 ''a'' (insertKeys 5 (10::nat) (newCacheManager 2) [''a'', ''b'']))))"
    by blast
  have full: "\<not> cacheHas ''c'' (insertKeys 5 (10::nat) (newCacheManager 2) [''a'', ''b'']) \<and>
      maxSize (insertKeys 5 (10::nat) (newCacheManager 2) [''a'', ''b''])
        \<le> int (cacheSize (insertKeys 5 (10::nat) (newCacheManager 2) [''a'', ''b''])) \<and>
      accessOrder (insertKeys 5 (10::nat) (newCacheManager 2) [''a'', ''b'']) = ''a'' # [''b''] \<and>
      ''a'' \<noteq> []"
    by (simp add: example_cache cacheHas_def cacheSize_def)
  from C5_lru [OF inv, where key = "''c''" and lru = "''a''" and rest = "[''b'']"
                 and now = 7 and v = 30] full
  have "accessOrder (cacheSet 7 ''c'' 30 (insertKeys 5 (10::nat) (newCacheManager 2) [''a'', ''b'']))
          = [''b''] @ [''c'']"
    by blast
  then have ev: "accessOrder (cacheSet 7 ''c'' 30
          (insertKeys 5 (10::nat) (newCacheManager 2) [''a'', ''b''])) = [''b'', ''c'']"
    by simp
  have dq: "distinct (''a'' # [''b''] @ [''c'']) \<and> int (length (''a'' # [''b''])) = 2 \<and> ''a'' \<noteq> []"
    by simp
  from C5_lru [OF inv, where k = "''a''" and ks = "[''b'']" and k' = "''c''" and n = 2
                 and now = 5 and v = 10] dq
  have "fst ` set (cache (insertKeys 5 (10::nat) (newCacheManager 2) (''a'' # [''b''] @ [''c''])))
          = set ([''b''] @ [''c''])"
    by blast
  then have q: "fst ` set (cache (insertKeys 5 (10::nat) (newCacheManager 2) [''a'', ''b'', ''c'']))
             = {''b'', ''c''}"
    by simp
  have d: "distinct [''a'', ''b'', ''c'']" by simp
  from full have f1: "\<not> cacheHas ''c'' (insertKeys 5 (10::nat) (newCacheManager 2) [''a'', ''b''])"
    and f2: "accessOrder (insertKeys 5 (10::nat) (newCacheManager 2) [''a'', ''b'']) = [''a'', ''b'']"
    by simp_all
  from inv has p f1 f2 ev q d show ?thesis by blast
qed

text \<open>
  The claim as stated fails at capacity 1: the key that \<^verbatim>\<open>get\<close> has just read is the
  only key, hence also the least recently used one, and the next \<^verbatim>\<open>set\<close> of a new key
  evicts it.
\<close>

theorem C5_lru_counterexample:
  "maxSize (cacheSet 5 ''a'' (10::nat) (newCacheManager 1)) = 1 \<and>
   fst (cacheGet 6 ''a'' (cacheSet 5 ''a'' (10::nat) (newCacheManager 1))) = Some 10 \<and>
   \<not> cacheHas ''a''
       (cacheSet 7 ''b'' 20 (snd (cacheGet 6 ''a'' (cacheSet 5 ''a'' (10::nat) (newCacheManager 1)))))"
  by (simp add: cacheHas_def cacheGet_def cacheSet_def newCacheManager_def
                evictLeastRecentlyUsed_def updateAccessOrder_def)

section \<open>Classification of background colors\<close>

text \<open>
  The rounding of a double: the exponent brackets the value, the rounded significand is
  within one half of the exact one, so the relative error of \<open>fl\<close> is at most
  \<open>1 / 2 ^ 53\<close>, and the natural numbers below \<open>2 ^ 53\<close> are not rounded at all.
\<close>

lemma exponentOf_bounds:
  "0 < x \<Longrightarrow> 2 powi exponentOf x \<le> x \<and> x < 2 powi (exponentOf x + 1)"
proof (induction x rule: exponentOf.induct)
  case (1 x)
  show ?case
  proof (cases "2 \<le> x")
    case True
    then have IH: "2 powi exponentOf (x / 2) \<le> x / 2 \<and> x / 2 < 2 powi (exponentOf (x / 2) + 1)"
      using "1.IH"(1) "1.prems" by simp
    have e: "exponentOf x = exponentOf (x / 2) + 1"
      using True by (subst exponentOf.simps) simp
    show ?thesis
      using IH unfolding e by (simp add: power_int_add)
  next
    case False
    show ?thesis
    proof (cases "x < 1")
      case True
      then have IH: "2 powi exponentOf (x * 2) \<le> x * 2 \<and> x * 2 < 2 powi (exponentOf (x * 2) + 1)"
        using "1.IH"(2) "1.prems" False by simp
      have e: "exponentOf x = exponentOf (x * 2) - 1"
        using True False "1.prems" by (subst exponentOf.simps) simp
      show ?thesis
        using IH unfolding e by (simp add: power_int_add power_int_diff)
    next
      case F2: False
      have e: "exponentOf x = 0"
        using False F2 by (subst exponentOf.simps) simp
      show ?thesis
        using False F2 unfolding e by simp
    qed
  qed
qed

lemma roundHalfEven_error: "\<bar>of_int (roundHalfEven q) - q\<bar> \<le> 1 / 2"
proof -
  have "rat_of_int \<lfloor>q\<rfloor> \<le> q" "q < rat_of_int \<lfloor>q\<rfloor> + 1"
    by linarith+
  then show ?thesis
    unfolding roundHalfEven_def Let_def by (simp split: if_splits)
qed

lemma roundHalfEven_of_int: "roundHalfEven (of_int k) = k"
  by (simp add: roundHalfEven_def)

lemma fl_error: "\<bar>fl x - x\<bar> \<le> \<bar>x\<bar> / 2 ^ 53"
proof (cases "x = 0")
  case True
  then show ?thesis by (simp add: fl_def)
next
  case False
  define e where "e = exponentOf \<bar>x\<bar>"
  define u :: rat where "u = 2 powi (e - 52)"
  have u: "0 < u" by (simp add: u_def)
  have b: "2 powi e \<le> \<bar>x\<bar>"
    using exponentOf_bounds [of "\<bar>x\<bar>"] False by (simp add: e_def)
  have ue: "u = 2 powi e / 2 ^ 52"
    by (simp add: u_def power_int_diff)
  have f: "fl x = of_int (roundHalfEven (x / u)) * u"
    using False by (simp add: fl_def e_def u_def Let_def)
  have "fl x - x = (of_int (roundHalfEven (x / u)) - x / u) * u"
    using u by (simp add: f field_simps)
  then have "\<bar>fl x - x\<bar> = \<bar>of_int (roundHalfEven (x / u)) - x / u\<bar> * u"
    using u by (simp add: abs_mult)
  also have "\<dots> \<le> (1 / 2) * u"
    using roundHalfEven_error [of "x / u"] u by (intro mult_right_mono) simp_all
  also have "\<dots> = 2 powi e / 2 ^ 53"
    by (simp add: ue)
  also have "\<dots> \<le> \<bar>x\<bar> / 2 ^ 53"
    using b by (simp add: divide_right_mono)
  finally show ?thesis .
qed


lemma unitRoundoff_bounds: "0 < unitRoundoff" "unitRoundoff \<le> 1 / 1000000000"
  by (simp_all add: unitRoundoff_def)

lemma fl_bounded_error:
  assumes "\<bar>x\<bar> \<le> B"
  shows "\<bar>fl x - x\<bar> \<le> B * unitRoundoff"
proof -
  have "\<bar>fl x - x\<bar> \<le> \<bar>x\<bar> / 2 ^ 53"
    by (rule fl_error)
  also have "\<dots> = \<bar>x\<bar> * unitRoundoff"
    by (simp add: unitRoundoff_def)
  also have "\<dots> \<le> B * unitRoundoff"
    using assms unitRoundoff_bounds(1) by (intro mult_right_mono) simp_all
  finally show ?thesis .
qed

lemma fl_product_error:
  assumes w: "0 \<le> w" and R: "0 \<le> R" "R \<le> 255"
  shows "\<bar>fl (fl w * R) - w * R\<bar> \<le> 765 * w * unitRoundoff"
proof -
  have a: "\<bar>fl w - w\<bar> \<le> w * unitRoundoff"
    using w by (intro fl_bounded_error) simp
  have "w * unitRoundoff \<le> w * 1"
    using w unitRoundoff_bounds by (intro mult_left_mono) simp_all
  with a have a2: "\<bar>fl w\<bar> \<le> 2 * w"
    by linarith
  have "\<bar>fl w * R\<bar> = \<bar>fl w\<bar> * R"
    using R by (simp add: abs_mult)
  also have "\<dots> \<le> (2 * w) * 255"
    using a2 R w by (intro mult_mono) simp_all
  finally have "\<bar>fl w * R\<bar> \<le> 510 * w"
    by simp
  then have e1: "\<bar>fl (fl w * R) - fl w * R\<bar> \<le> 510 * w * unitRoundoff"
    by (rule fl_bounded_error)
  have "\<bar>fl w * R - w * R\<bar> = \<bar>fl w - w\<bar> * R"
    using R by (simp add: abs_mult left_diff_distrib [symmetric])
  also have "\<dots> \<le> (w * unitRoundoff) * 255"
    using a R w unitRoundoff_bounds(1) by (intro mult_mono) simp_all
  finally have e2: "\<bar>fl w * R - w * R\<bar> \<le> 255 * w * unitRoundoff"
    by simp
  from e1 e2 show ?thesis
    by linarith
qed

lemma luminance_error:
  fixes r g b :: nat
  assumes "r \<le> 255" "g \<le> 255" "b \<le> 255"
  shows "\<exists>L. luminanceOf \<lparr>rgb_r = Some (of_nat r), rgb_g = Some (of_nat g),
                           rgb_b = Some (of_nat b)\<rparr> = Some L \<and>
             \<bar>L - (299 / 1000 * of_nat r + 587 / 1000 * of_nat g + 114 / 1000 * of_nat b) / 255\<bar>
               \<le> 1 / 2 ^ 50"
proof -
  define R G B :: rat where "R = of_nat r" and "G = of_nat g" and "B = of_nat b"
  have bounds: "0 \<le> R" "R \<le> 255" "0 \<le> G" "G \<le> 255" "0 \<le> B" "B \<le> 255"
    using assms by (simp_all add: R_def G_def B_def)
  define pr pg pb where "pr = fl (fl (299 / 1000) * R)" and "pg = fl (fl (587 / 1000) * G)"
    and "pb = fl (fl (114 / 1000) * B)"
  define s1 s2 L where "s1 = fl (pr + pg)" and "s2 = fl (s1 + pb)" and "L = fl (s2 / 255)"
  define q where "q = s2 / 255"
  define X where "X = (299 / 1000 * R + 587 / 1000 * G + 114 / 1000 * B) / 255"
  note u = unitRoundoff_bounds
  have lum: "luminanceOf \<lparr>rgb_r = Some (of_nat r), rgb_g = Some (of_nat g),
                          rgb_b = Some (of_nat b)\<rparr> = Some L"
    by (simp add: luminanceOf_def lit_def mulN_def addN_def div255_def L_def s2_def s1_def
                  pr_def pg_def pb_def R_def G_def B_def)
  have "\<bar>pr - 299 / 1000 * R\<bar> \<le> 765 * (299 / 1000) * unitRoundoff"
    unfolding pr_def using bounds by (intro fl_product_error) simp_all
  then have er: "\<bar>pr - 299 / 1000 * R\<bar> \<le> 229 * unitRoundoff"
    using u by linarith
  have "\<bar>pg - 587 / 1000 * G\<bar> \<le> 765 * (587 / 1000) * unitRoundoff"
    unfolding pg_def using bounds by (intro fl_product_error) simp_all
  then have eg: "\<bar>pg - 587 / 1000 * G\<bar> \<le> 450 * unitRoundoff"
    using u by linarith
  have "\<bar>pb - 114 / 1000 * B\<bar> \<le> 765 * (114 / 1000) * unitRoundoff"
    unfolding pb_def using bounds by (intro fl_product_error) simp_all
  then have eb: "\<bar>pb - 114 / 1000 * B\<bar> \<le> 88 * unitRoundoff"
    using u by linarith
  have "\<bar>pr + pg\<bar> \<le> 227"
    using er eg bounds u by linarith
  then have e1: "\<bar>s1 - (pr + pg)\<bar> \<le> 227 * unitRoundoff"
    unfolding s1_def by (rule fl_bounded_error)
  have "\<bar>s1 + pb\<bar> \<le> 256"
    using e1 er eg eb bounds u by linarith
  then have e2: "\<bar>s2 - (s1 + pb)\<bar> \<le> 256 * unitRoundoff"
    unfolding s2_def by (rule fl_bounded_error)
  have q: "255 * q = s2"
    by (simp add: q_def)
  have X: "255 * X = 299 / 1000 * R + 587 / 1000 * G + 114 / 1000 * B"
    by (simp add: X_def)
  have "\<bar>q\<bar> \<le> 2"
    using q e2 e1 er eg eb bounds u by linarith
  then have e3: "\<bar>L - q\<bar> \<le> 2 * unitRoundoff"
    unfolding L_def q_def by (rule fl_bounded_error)
  have "\<bar>L - X\<bar> \<le> 8 * unitRoundoff"
    using e3 q X e2 e1 er eg eb by linarith
  then have "\<bar>L - X\<bar> \<le> 1 / 2 ^ 50"
    by (simp add: unitRoundoff_def)
  with lum show ?thesis
    unfolding X_def R_def G_def B_def by blast
qed


lemma nat_gap:
  fixes N T :: nat
  shows "(of_nat N :: rat) < of_nat T \<Longrightarrow> (of_nat N :: rat) + 1 \<le> of_nat T"
    and "(of_nat T :: rat) < of_nat N \<Longrightarrow> (of_nat T :: rat) + 1 \<le> of_nat N"
proof -
  assume "(of_nat N :: rat) < of_nat T"
  then have "N + 1 \<le> T" by simp
  then have "(of_nat (N + 1) :: rat) \<le> of_nat T" by (simp only: of_nat_le_iff)
  then show "(of_nat N :: rat) + 1 \<le> of_nat T" by simp
next
  assume "(of_nat T :: rat) < of_nat N"
  then have "T + 1 \<le> N" by simp
  then have "(of_nat (T + 1) :: rat) \<le> of_nat N" by (simp only: of_nat_le_iff)
  then show "(of_nat T :: rat) + 1 \<le> of_nat N" by simp
qed

lemma threshold_error:
  assumes "0 \<le> t" "t \<le> 1"
  shows "\<bar>fl t - t\<bar> \<le> unitRoundoff"
  using fl_bounded_error [of t 1] assms by simp

lemma kind_by_luminance:
  assumes p: "parseColor bgColor = Some rgb" and l: "luminanceOf rgb = Some L"
  shows "detectThemeKind bgColor =
           (if L < fl (5 / 100) \<or> fl (95 / 100) < L then highContrast
            else if fl (5 / 10) < L then light else dark)"
  using p l by (simp add: detectThemeKind_def lessN_def lit_def)

lemma kind_by_exact_luminance:
  fixes r g b :: nat and X :: rat
  assumes p: "parseColor bgColor = Some \<lparr>rgb_r = Some (of_nat r), rgb_g = Some (of_nat g),
                                          rgb_b = Some (of_nat b)\<rparr>"
    and c: "r \<le> 255" "g \<le> 255" "b \<le> 255"
    and X: "X = (299 / 1000 * of_nat r + 587 / 1000 * of_nat g + 114 / 1000 * of_nat b) / 255"
  shows "X < 5 / 100 \<or> 95 / 100 < X \<Longrightarrow> detectThemeKind bgColor = highContrast"
    and "5 / 10 < X \<Longrightarrow> X < 95 / 100 \<Longrightarrow> detectThemeKind bgColor = light"
    and "5 / 100 < X \<Longrightarrow> X < 5 / 10 \<Longrightarrow> detectThemeKind bgColor = dark"
proof -
  obtain L where l: "luminanceOf \<lparr>rgb_r = Some (of_nat r), rgb_g = Some (of_nat g),
                                   rgb_b = Some (of_nat b)\<rparr> = Some L"
    and "\<bar>L - X\<bar> \<le> 1 / 2 ^ 50"
    using luminance_error [OF c] unfolding X by blast
  then have e: "\<bar>L - X\<bar> \<le> 8 * unitRoundoff"
    by (simp add: unitRoundoff_def)
  note k = kind_by_luminance [OF p l]
  note u = unitRoundoff_bounds
  have t1: "\<bar>fl (5 / 100) - 5 / 100\<bar> \<le> unitRoundoff"
    by (rule threshold_error) simp_all
  have t2: "\<bar>fl (5 / 10) - 5 / 10\<bar> \<le> unitRoundoff"
    by (rule threshold_error) simp_all
  have t3: "\<bar>fl (95 / 100) - 95 / 100\<bar> \<le> unitRoundoff"
    by (rule threshold_error) simp_all
  define N where "N = 299 * r + 587 * g + 114 * b"
  have N: "255000 * X = of_nat N"
    by (simp add: X N_def)
  have lo: "X < 5 / 100 \<Longrightarrow> X + 1 / 255000 \<le> 5 / 100"
  proof -
    assume "X < 5 / 100"
    then have "(of_nat N :: rat) < of_nat 12750" using N by simp
    then have "(of_nat N :: rat) + 1 \<le> of_nat 12750" by (rule nat_gap)
    then show ?thesis using N by simp
  qed
  have lo': "5 / 100 < X \<Longrightarrow> 5 / 100 + 1 / 255000 \<le> X"
  proof -
    assume "5 / 100 < X"
    then have "(of_nat 12750 :: rat) < of_nat N" using N by simp
    then have "(of_nat 12750 :: rat) + 1 \<le> of_nat N" by (rule nat_gap)
    then show ?thesis using N by simp
  qed
  have mi: "X < 5 / 10 \<Longrightarrow> X + 1 / 255000 \<le> 5 / 10"
  proof -
    assume "X < 5 / 10"
    then have "(of_nat N :: rat) < of_nat 127500" using N by simp
    then have "(of_nat N :: rat) + 1 \<le> of_nat 127500" by (rule nat_gap)
    then show ?thesis using N by simp
  qed
  have mi': "5 / 10 < X \<Longrightarrow> 5 / 10 + 1 / 255000 \<le> X"
  proof -
    assume "5 / 10 < X"
    then have "(of_nat 127500 :: rat) < of_nat N" using N by simp
    then have "(of_nat 127500 :: rat) + 1 \<le> of_nat N" by (rule nat_gap)
    then show ?thesis using N by simp
  qed
  have hi: "X < 95 / 100 \<Longrightarrow> X + 1 / 255000 \<le> 95 / 100"
  proof -
    assume "X < 95 / 100"
    then have "(of_nat N :: rat) < of_nat 242250" using N by simp
    then have "(of_nat N :: rat) + 1 \<le> of_nat 242250" by (rule nat_gap)
    then show ?thesis using N by simp
  qed
  have hi': "95 / 100 < X \<Longrightarrow> 95 / 100 + 1 / 255000 \<le> X"
  proof -
    assume "95 / 100 < X"
    then have "(of_nat 242250 :: rat) < of_nat N" using N by simp
    then have "(of_nat 242250 :: rat) + 1 \<le> of_nat N" by (rule nat_gap)
    then show ?thesis using N by simp
  qed
  show "X < 5 / 100 \<or> 95 / 100 < X \<Longrightarrow> detectThemeKind bgColor = highContrast"
  proof -
    assume "X < 5 / 100 \<or> 95 / 100 < X"
    then have "L < fl (5 / 100) \<or> fl (95 / 100) < L"
      using lo hi' e t1 t3 u by linarith
    then show ?thesis by (simp add: k)
  qed
  show "5 / 10 < X \<Longrightarrow> X < 95 / 100 \<Longrightarrow> detectThemeKind bgColor = light"
  proof -
    assume a: "5 / 10 < X" "X < 95 / 100"
    have "\<not> L < fl (5 / 100)" "\<not> fl (95 / 100) < L" "fl (5 / 10) < L"
      using mi' [OF a(1)] hi [OF a(2)] e t1 t2 t3 u by linarith+
    then show ?thesis by (simp add: k)
  qed
  show "5 / 100 < X \<Longrightarrow> X < 5 / 10 \<Longrightarrow> detectThemeKind bgColor = dark"
  proof -
    assume a: "5 / 100 < X" "X < 5 / 10"
    have "\<not> L < fl (5 / 100)" "\<not> fl (95 / 100) < L" "\<not> fl (5 / 10) < L"
      using lo' [OF a(1)] mi [OF a(2)] e t1 t2 t3 u by linarith+
    then show ?thesis by (simp add: k)
  qed
qed

lemma fl_of_nat:
  assumes "(of_nat n :: rat) < 2 ^ 53"
  shows "fl (of_nat n) = of_nat n"
proof (cases "n = 0")
  case True
  then show ?thesis by (simp add: fl_def)
next
  case False
  define x :: rat where "x = of_nat n"
  define e where "e = exponentOf x"
  have "1 \<le> n"
    using False by simp
  then have "(of_nat 1 :: rat) \<le> of_nat n"
    by (simp only: of_nat_le_iff)
  then have x: "1 \<le> x" "x < 2 ^ 53"
    using assms unfolding x_def by simp_all
  have b: "2 powi e \<le> x" "x < 2 powi (e + 1)"
    using exponentOf_bounds [of x] x by (simp_all add: e_def)
  have e0: "0 \<le> e"
  proof (rule ccontr)
    assume "\<not> 0 \<le> e"
    then have "e + 1 \<le> 0" by simp
    then have "(2::rat) powi (e + 1) \<le> 2 powi 0"
      by (intro power_int_increasing) simp_all
    with b x show False by simp
  qed
  have e52: "e \<le> 52"
  proof (rule ccontr)
    assume "\<not> e \<le> 52"
    then have "53 \<le> e" by simp
    then have "(2::rat) powi 53 \<le> 2 powi e"
      by (intro power_int_increasing) simp_all
    with b x show False by simp
  qed
  define k where "k = nat (52 - e)"
  have "e - 52 = - int k"
    using e52 by (simp add: k_def)
  then have "(2::rat) powi (e - 52) = 2 powi (- int k)"
    by simp
  also have "\<dots> = 1 / 2 ^ k"
    by (simp add: power_int_minus field_simps)
  finally have u: "(2::rat) powi (e - 52) = 1 / 2 ^ k" .
  have "x / (1 / 2 ^ k) = of_int (int n * 2 ^ k)"
    by (simp add: x_def)
  then have "roundHalfEven (x / (1 / 2 ^ k)) = int n * 2 ^ k"
    by (simp only: roundHalfEven_of_int)
  then have "fl x = of_int (int n * 2 ^ k) * (1 / 2 ^ k)"
    using x by (simp add: fl_def e_def [symmetric] u Let_def)
  then show ?thesis
    by (simp add: x_def)
qed

lemma hex_digit_facts:
  assumes "digitValue c < 16"
  shows "\<not> isWhiteSpace c" "c \<noteq> CHR ''-''" "c \<noteq> CHR ''+''" "c \<noteq> CHR ''x''" "c \<noteq> CHR ''X''"
proof -
  have n: "48 \<le> (of_char c :: nat)" "(of_char c :: nat) \<le> 102"
    using assms by (auto simp: digitValue_def Let_def split: if_splits)
  show "\<not> isWhiteSpace c"
    using n by (auto simp: isWhiteSpace_def)
  show "c \<noteq> CHR ''-''" "c \<noteq> CHR ''+''"
    using n by auto
  show "c \<noteq> CHR ''x''" "c \<noteq> CHR ''X''"
    using assms by (auto simp: digitValue_def)
qed

lemma parseInt_hex:
  assumes "digitValue h1 < 16" "digitValue h2 < 16"
  shows "parseInt [h1, h2] (Some 16) = Some (of_nat (16 * digitValue h1 + digitValue h2))"
proof -
  have "(of_nat (16 * digitValue h1 + digitValue h2) :: rat) \<le> of_nat 255"
    using assms by (simp only: of_nat_le_iff)
  then have "(of_nat (16 * digitValue h1 + digitValue h2) :: rat) < 2 ^ 53"
    by simp
  then have "fl (of_nat (16 * digitValue h1 + digitValue h2)) = of_nat (16 * digitValue h1 + digitValue h2)"
    by (rule fl_of_nat)
  then show ?thesis
    using assms hex_digit_facts [OF assms(1)] hex_digit_facts [OF assms(2)]
    by (simp add: parseInt_def Let_def lit_def mult.commute)
qed

lemma parseColor_hex:
  assumes "digitValue h1 < 16" "digitValue h2 < 16" "digitValue h3 < 16"
    "digitValue h4 < 16" "digitValue h5 < 16" "digitValue h6 < 16"
  shows "parseColor [CHR ''#'', h1, h2, h3, h4, h5, h6] =
           Some \<lparr>rgb_r = Some (of_nat (16 * digitValue h1 + digitValue h2)),
                 rgb_g = Some (of_nat (16 * digitValue h3 + digitValue h4)),
                 rgb_b = Some (of_nat (16 * digitValue h5 + digitValue h6))\<rparr>"
  using assms by (simp add: parseColor_def parseInt_hex)

text \<open>
  Examples, by evaluation of the double arithmetic.
\<close>

lemma parse_808080:
  "parseColor ''#808080'' = Some \<lparr>rgb_r = Some 128, rgb_g = Some 128, rgb_b = Some 128\<rparr>"
  by code_simp

lemma luminance_808080:
  "luminanceOf \<lparr>rgb_r = Some 128, rgb_g = Some 128, rgb_b = Some 128\<rparr>
     = Some (282578800148737 / 562949953421312)"
  by code_simp

lemma kind_000000: "detectThemeKind ''#000000'' = highContrast"
  by code_simp

lemma kind_ffffff: "detectThemeKind ''#ffffff'' = highContrast"
  by code_simp

lemma kind_808080: "detectThemeKind ''#808080'' = light"
  by code_simp

text \<open>
  Where the exact value of the luminance formula is one of the thresholds, the rounding
  decides: for the background \<^verbatim>\<open>#090f0b\<close> the exact value is \<open>0.05\<close>, which is not
  below the threshold, while the doubles give a luminance just below the double \<open>0.05\<close>.
\<close>

lemma kind_090f0b:
  "detectThemeKind ''#090f0b'' = highContrast \<and>
   ((299 / 1000) * 9 + (587 / 1000) * 15 + (114 / 1000) * 11) / 255 = (5 / 100 :: rat)"
  by code_simp

text \<open>
  Claim C4, as amended. \<^verbatim>\<open>detectThemeKind\<close> computes the luminance
  \<open>(0.299 R + 0.587 G + 0.114 B) / 255\<close> of the parsed background in double arithmetic and
  returns highContrast when it is below 0.05 or above 0.95, light when it is above 0.5,
  and dark otherwise, also when the color cannot be parsed. For components from 0 to 255
  the computed luminance is within \<open>1 / 2 ^ 50\<close> of the exact value \<open>X\<close> of the formula,
  and the kind is highContrast when \<open>X < 0.05\<close> or \<open>X > 0.95\<close>, light when
  \<open>0.5 < X < 0.95\<close>, and dark when \<open>0.05 < X < 0.5\<close>. In particular the background
  \<^verbatim>\<open>#000000\<close> yields highContrast, \<^verbatim>\<open>#ffffff\<close> yields highContrast, and \<^verbatim>\<open>#808080\<close>,
  whose luminance is \<open>128 / 255\<close>, above 0.5, yields light.
\<close>

theorem C4_theme_kind:
  "detectThemeKind ''#000000'' = highContrast \<and>
   detectThemeKind ''#ffffff'' = highContrast \<and>
   detectThemeKind ''#808080'' = light \<and>
   (parseColor bgColor = None \<longrightarrow> detectThemeKind bgColor = dark) \<and>
   (parseColor bgColor = Some rgb \<longrightarrow>
      detectThemeKind bgColor =
        (if lessN (luminanceOf rgb) (lit (5 / 100)) \<or> lessN (lit (95 / 100)) (luminanceOf rgb)
         then highContrast
         else if lessN (lit (5 / 10)) (luminanceOf rgb) then light
         else dark)) \<and>
   (parseColor bgColor = Some \<lparr>rgb_r = Some (of_nat r), rgb_g = Some (of_nat g),
                                 rgb_b = Some (of_nat b)\<rparr> \<and>
    r \<le> 255 \<and> g \<le> 255 \<and> b \<le> 255 \<and>
    X = (299 / 1000 * of_nat r + 587 / 1000 * of_nat g + 114 / 1000 * of_nat b) / 255 \<longrightarrow>
      (\<exists>L. luminanceOf \<lparr>rgb_r = Some (of_nat r), rgb_g = Some (of_nat g),
                          rgb_b = Some (of_nat b)\<rparr> = Some L \<and>
           \<bar>L - X\<bar> \<le> 1 / 2 ^ 50) \<and>
      (X < 5 / 100 \<or> 95 / 100 < X \<longrightarrow> detectThemeKind bgColor = highContrast) \<and>
      (5 / 10 < X \<and> X < 95 / 100 \<longrightarrow> detectThemeKind bgColor = light) \<and>
      (5 / 100 < X \<and> X < 5 / 10 \<longrightarrow> detectThemeKind bgColor = dark))"
proof -
  have a: "parseColor bgColor = None \<longrightarrow> detectThemeKind bgColor = dark"
    by (simp add: detectThemeKind_def)
  have b: "parseColor bgColor = Some rgb \<longrightarrow>
      detectThemeKind bgColor =
        (if lessN (luminanceOf rgb) (lit (5 / 100)) \<or> lessN (lit (95 / 100)) (luminanceOf rgb)
         then highContrast
         else if lessN (lit (5 / 10)) (luminanceOf rgb) then light
         else dark)"
    by (simp add: detectThemeKind_def Let_def)
  have c: "(\<exists>L. luminanceOf \<lparr>rgb_r = Some (of_nat r), rgb_g = Some (of_nat g),
                          rgb_b = Some (of_nat b)\<rparr> = Some L \<and>
           \<bar>L - X\<bar> \<le> 1 / 2 ^ 50) \<and>
      (X < 5 / 100 \<or> 95 / 100 < X \<longrightarrow> detectThemeKind bgColor = highContrast) \<and>
      (5 / 10 < X \<and> X < 95 / 100 \<longrightarrow> detectThemeKind bgColor = light) \<and>
      (5 / 100 < X \<and> X < 5 / 10 \<longrightarrow> detectThemeKind bgColor = dark)"
    if p: "parseColor bgColor = Some \<lparr>rgb_r = Some (of_nat r), rgb_g = Some (of_nat g),
                                       rgb_b = Some (of_nat b)\<rparr>"
      and le: "r \<le> 255" "g \<le> 255" "b \<le> 255"
      and X: "X = (299 / 1000 * of_nat r + 587 / 1000 * of_nat g + 114 / 1000 * of_nat b) / 255"
    using luminance_error [OF le] kind_by_exact_luminance [OF p le X]
    unfolding X by blast
  from a b c kind_000000 kind_ffffff kind_808080 show ?thesis
    by blast
qed

theorem C4_theme_kind_witness:
  "parseColor ''transparent'' = None \<and> detectThemeKind ''transparent'' = dark \<and>
   parseColor ''#ff0000'' = Some \<lparr>rgb_r = Some 255, rgb_g = Some 0, rgb_b = Some 0\<rparr> \<and>
   detectThemeKind ''#ff0000'' = dark \<and>
   parseColor ''#00ff00'' = Some \<lparr>rgb_r = Some 0, rgb_g = Some 255, rgb_b = Some 0\<rparr> \<and>
   detectThemeKind ''#00ff00'' = light \<and>
   parseColor ''#0000ff'' = Some \<lparr>rgb_r = Some 0, rgb_g = Some 0, rgb_b = Some 255\<rparr> \<and>
   detectThemeKind ''#0000ff'' = dark \<and>
   parseColor ''rgb(250, 250, 250)''
     = Some \<lparr>rgb_r = Some 250, rgb_g = Some 250, rgb_b = Some 250\<rparr> \<and>
   detectThemeKind ''rgb(250, 250, 250)'' = highContrast \<and>
   parseColor ''#0a0a0a'' = Some \<lparr>rgb_r = Some 10, rgb_g = Some 10, rgb_b = Some 10\<rparr> \<and>
   detectThemeKind ''#0a0a0a'' = highContrast \<and>
   parseColor ''#808080'' = Some \<lparr>rgb_r = Some 128, rgb_g = Some 128, rgb_b = Some 128\<rparr> \<and>
   (\<exists>L. luminanceOf \<lparr>rgb_r = Some 128, rgb_g = Some 128, rgb_b = Some 128\<rparr> = Some L \<and>
        \<bar>L - 128 / 255\<bar> \<le> 1 / 2 ^ 50) \<and>
   detectThemeKind ''#808080'' = light"
proof -
  have n: "parseColor ''transparent'' = None"
    by code_simp
  from C4_theme_kind [of "''transparent''"] n have t: "detectThemeKind ''transparent'' = dark"
    by blast
  have pr: "parseColor ''#ff0000''
              = Some \<lparr>rgb_r = Some (of_nat 255), rgb_g = Some (of_nat 0), rgb_b = Some (of_nat 0)\<rparr>"
    and pg: "parseColor ''#00ff00''
              = Some \<lparr>rgb_r = Some (of_nat 0), rgb_g = Some (of_nat 255), rgb_b = Some (of_nat 0)\<rparr>"
    and pb: "parseColor ''#0000ff''
              = Some \<lparr>rgb_r = Some (of_nat 0), rgb_g = Some (of_nat 0), rgb_b = Some (of_nat 255)\<rparr>"
    and pw: "parseColor ''rgb(250, 250, 250)''
              = Some \<lparr>rgb_r = Some (of_nat 250), rgb_g = Some (of_nat 250),
                      rgb_b = Some (of_nat 250)\<rparr>"
    and pk: "parseColor ''#0a0a0a''
              = Some \<lparr>rgb_r = Some (of_nat 10), rgb_g = Some (of_nat 10), rgb_b = Some (of_nat 10)\<rparr>"
    and pm: "parseColor ''#808080''
              = Some \<lparr>rgb_r = Some (of_nat 128), rgb_g = Some (of_nat 128),
                      rgb_b = Some (of_nat 128)\<rparr>"
    by code_simp+
  have r: "detectThemeKind ''#ff0000'' = dark"
    using C4_theme_kind [of "''#ff0000''" _ 255 0 0 "299 / 1000"] pr by simp
  have g: "detectThemeKind ''#00ff00'' = light"
    using C4_theme_kind [of "''#00ff00''" _ 0 255 0 "587 / 1000"] pg by simp
  have b: "detectThemeKind ''#0000ff'' = dark"
    using C4_theme_kind [of "''#0000ff''" _ 0 0 255 "114 / 1000"] pb by simp
  have w: "detectThemeKind ''rgb(250, 250, 250)'' = highContrast"
    using C4_theme_kind [of "''rgb(250, 250, 250)''" _ 250 250 250 "250 / 255"] pw by simp
  have k: "detectThemeKind ''#0a0a0a'' = highContrast"
    using C4_theme_kind [of "''#0a0a0a''" _ 10 10 10 "10 / 255"] pk by simp
  have m: "(\<exists>L. luminanceOf \<lparr>rgb_r = Some 128, rgb_g = Some 128, rgb_b = Some 128\<rparr> = Some L \<and>
               \<bar>L - 128 / 255\<bar> \<le> 1 / 2 ^ 50) \<and>
           detectThemeKind ''#808080'' = light"
    using C4_theme_kind [of "''#808080''" _ 128 128 128 "128 / 255"] pm by simp
  from n t pr r pg g pb b pw w pk k pm m show ?thesis
    by simp
qed

text \<open>
  The claim as stated fails at its third example: \<^verbatim>\<open>#808080\<close> is classified as light,
  not as dark; its luminance \<open>128 / 255\<close> is above one half.
\<close>

theorem C4_theme_kind_counterexample:
  "detectThemeKind ''#808080'' \<noteq> dark \<and> (1 / 2 :: rat) < 128 / 255"
  by (simp add: kind_808080)

end
